theory Spec2Isabelle
  imports Complex_Main
begin

section \<open>Python values\<close>

text \<open>
  The answer payloads, the options of a question and the request bodies are JSON values,
  which Python holds as \<open>None\<close>, \<open>bool\<close>, \<open>int\<close>, \<open>str\<close>, \<open>list\<close> and \<open>dict\<close>.
  A dictionary is an association list in insertion order (its keys are strings and
  distinct). Strings are lists of code points below 256; JSON floats are not modelled.
\<close>

datatype json =
    JNull
  | JBool bool
  | JInt int
  | JStr string
  | JList "json list"
  | JObj "(string \<times> json) list"

text \<open>\<open>d.get(k)\<close>: the value under the key, \<open>None\<close> when the key is missing.\<close>

definition dict_get :: "(string \<times> json) list \<Rightarrow> string \<Rightarrow> json" where
  "dict_get d k = (case map_of d k of None \<Rightarrow> JNull | Some v \<Rightarrow> v)"

text \<open>\<open>k in d\<close>.\<close>

definition dict_has :: "(string \<times> json) list \<Rightarrow> string \<Rightarrow> bool" where
  "dict_has d k = (map_of d k \<noteq> None)"

text \<open>Truth value of a Python object, as \<open>if x\<close>, \<open>not x\<close> and \<open>x or y\<close> test it.\<close>

fun py_truthy :: "json \<Rightarrow> bool" where
  "py_truthy JNull = False"
| "py_truthy (JBool b) = b"
| "py_truthy (JInt n) = (n \<noteq> 0)"
| "py_truthy (JStr s) = (s \<noteq> [])"
| "py_truthy (JList xs) = (xs \<noteq> [])"
| "py_truthy (JObj d) = (d \<noteq> [])"

text \<open>\<open>x or y\<close>.\<close>

definition py_or :: "json \<Rightarrow> json \<Rightarrow> json" where
  "py_or x y = (if py_truthy x then x else y)"

subsection \<open>\<open>str\<close>, \<open>strip\<close> and \<open>lower\<close>\<close>

text \<open>Decimal digits of a natural number, most significant first; fuel bounds the loop.\<close>

fun digits_fuel :: "nat \<Rightarrow> nat \<Rightarrow> string" where
  "digits_fuel 0 n = []"
| "digits_fuel (Suc f) n =
     (if n < 10 then [char_of (48 + n)]
      else digits_fuel f (n div 10) @ [char_of (48 + n mod 10)])"

definition str_nat :: "nat \<Rightarrow> string" where
  "str_nat n = digits_fuel (Suc n) n"

definition str_int :: "int \<Rightarrow> string" where
  "str_int i = (if i < 0 then CHR ''-'' # str_nat (nat (- i)) else str_nat (nat i))"

definition hex_digit :: "nat \<Rightarrow> char" where
  "hex_digit n = (if n < 10 then char_of (48 + n) else char_of (87 + n))"

text \<open>\<open>str.isprintable\<close> on the code points below 256.\<close>

definition printable :: "char \<Rightarrow> bool" where
  "printable c =
     (let n = (of_char c :: nat)
      in (32 \<le> n \<and> n < 127) \<or> (161 \<le> n \<and> n \<noteq> 173))"

definition repr_char :: "char \<Rightarrow> char \<Rightarrow> string" where
  "repr_char quote c =
     (if c = quote \<or> c = CHR 0x5C then [CHR 0x5C, c]
      else if c = CHR 0x09 then [CHR 0x5C, CHR ''t'']
      else if c = CHR 0x0A then [CHR 0x5C, CHR ''n'']
      else if c = CHR 0x0D then [CHR 0x5C, CHR ''r'']
      else if printable c then [c]
      else [CHR 0x5C, CHR ''x'',
            hex_digit ((of_char c :: nat) div 16), hex_digit ((of_char c :: nat) mod 16)])"

text \<open>
  \<open>repr\<close> of a string: single quotes, unless the string has a single quote and no
  double quote.
\<close>

definition repr_str :: "string \<Rightarrow> string" where
  "repr_str s =
     (let quote = (if CHR 0x27 \<in> set s \<and> CHR 0x22 \<notin> set s then CHR 0x22 else CHR 0x27)
      in [quote] @ concat (map (repr_char quote) s) @ [quote])"

text \<open>\<open>', '.join(parts)\<close>.\<close>

fun join_comma :: "string list \<Rightarrow> string" where
  "join_comma [] = []"
| "join_comma [x] = x"
| "join_comma (x # y # ys) = x @ '', '' @ join_comma (y # ys)"

fun py_repr :: "json \<Rightarrow> string" where
  "py_repr JNull = ''None''"
| "py_repr (JBool b) = (if b then ''True'' else ''False'')"
| "py_repr (JInt i) = str_int i"
| "py_repr (JStr s) = repr_str s"
| "py_repr (JList xs) = ''['' @ join_comma (map py_repr xs) @ '']''"
| "py_repr (JObj d) =
     ''{'' @ join_comma (map (\<lambda>kv. repr_str (fst kv) @ '': '' @ py_repr (snd kv)) d) @ ''}''"

text \<open>\<open>str(v)\<close>: a string is itself, every other value is its \<open>repr\<close>.\<close>

definition py_str :: "json \<Rightarrow> string" where
  "py_str v = (case v of JStr s \<Rightarrow> s | _ \<Rightarrow> py_repr v)"

text \<open>\<open>str.isspace\<close> on the code points below 256.\<close>

definition is_space :: "char \<Rightarrow> bool" where
  "is_space c =
     (let n = (of_char c :: nat)
      in (9 \<le> n \<and> n \<le> 13) \<or> (28 \<le> n \<and> n \<le> 32) \<or> n = 133 \<or> n = 160)"

text \<open>\<open>s.strip()\<close>, and \<open>s.strip(chars)\<close> for a given set of characters.\<close>

definition strip_chars :: "(char \<Rightarrow> bool) \<Rightarrow> string \<Rightarrow> string" where
  "strip_chars p s = rev (dropWhile p (rev (dropWhile p s)))"

definition py_strip :: "string \<Rightarrow> string" where
  "py_strip s = strip_chars is_space s"

definition lower_char :: "char \<Rightarrow> char" where
  "lower_char c =
     (let n = (of_char c :: nat)
      in if (65 \<le> n \<and> n \<le> 90) \<or> (192 \<le> n \<and> n \<le> 222 \<and> n \<noteq> 215)
         then char_of (n + 32) else c)"

definition py_lower :: "string \<Rightarrow> string" where
  "py_lower s = map lower_char s"

section \<open>The grading engine (utils/helpers.py)\<close>

text \<open>
  The helpers whose Python names start with an underscore keep their names without it.
\<close>

definition is_true :: "json \<Rightarrow> bool" where
  "is_true val = (val = JBool True \<or> val = JInt 1 \<or> py_lower (py_str val) = ''true'')"

definition norm_token :: "json \<Rightarrow> string" where
  "norm_token val = py_lower (py_strip (py_str val))"

text \<open>
  \<open>_tokens_from_answer\<close>. \<open>answer_raw\<close> is the list \<open>raw\<close> the function builds from
  the payload, \<open>item_tokens\<close> is what one pass of its loop adds to the set.
\<close>

definition answer_raw :: "json \<Rightarrow> json list" where
  "answer_raw student_answer =
     (case student_answer of
        JList xs \<Rightarrow> xs
      | JObj d \<Rightarrow>
          (let truthy_keys = map (\<lambda>kv. JStr (fst kv)) (filter (\<lambda>kv. is_true (snd kv)) d)
           in if truthy_keys \<noteq> [] then truthy_keys else map snd d)
      | _ \<Rightarrow> [student_answer])"

definition item_tokens :: "json \<Rightarrow> string list" where
  "item_tokens item =
     (case item of
        JNull \<Rightarrow> []
      | JObj d \<Rightarrow>
          map (\<lambda>key. norm_token (dict_get d key))
            (filter (\<lambda>key. dict_get d key \<noteq> JNull) [''id'', ''value'', ''text'', ''answer''])
      | _ \<Rightarrow> [norm_token item])"

definition tokens_from_answer :: "json \<Rightarrow> string set" where
  "tokens_from_answer student_answer =
     (if student_answer = JNull then {}
      else set (concat (map item_tokens (answer_raw student_answer))))"

section \<open>The data model (exams/models.py)\<close>

text \<open>
  Primary keys (UUIDs) and user references are natural numbers, datetimes are integers
  counting microseconds, and a \<open>DecimalField\<close> holds an exact rational (the rounding
  and the digit limits of the columns are not modelled). \<open>Exam\<close> and \<open>Question\<close>
  rows are only read by the operations below, so a foreign key to one of them is the row
  itself (\<open>attempt.exam\<close>, \<open>answer.question\<close>); every other foreign key is the key
  of the row it points to. The bookkeeping columns \<open>created_at\<close> and \<open>updated_at\<close>
  are left out, and so is the primary key of a \<open>Result\<close>, which no operation reads.
\<close>

datatype qtype = Mcq | MultipleMcq | Descriptive | Coding

datatype attempt_status = InProgress | Submitted | AutoSubmitted

datatype result_status = ResultPending | Pass | Fail

datatype grading_status = GradingPending | PartiallyGraded | FullyGraded

record exam =
  e_id :: nat
  e_start_time :: int
  e_end_time :: int
  e_total_marks :: rat
  e_passing_marks :: rat
  e_is_published :: bool
  e_allowed_departments :: json

record question =
  q_id :: nat
  q_exam :: nat
  q_type :: qtype
  q_points :: rat
  q_options :: "json list"
  q_correct_answers :: "json list"

record attempt =
  at_id :: nat
  at_exam :: exam
  at_student :: nat
  at_start_time :: int
  at_submit_time :: "int option"
  at_status :: attempt_status
  at_total_score :: "rat option"
  at_obtained_score :: "rat option"

record answer =
  an_id :: nat
  an_attempt :: nat
  an_question :: question
  an_answer :: json
  an_code :: "string option"
  an_score :: "rat option"
  an_evaluated_by :: "nat option"
  an_feedback :: "string option"

record result =
  r_attempt :: nat
  r_exam :: nat
  r_student :: nat
  r_total_marks :: rat
  r_obtained_marks :: rat
  r_percentage :: rat
  r_status :: result_status
  r_grading_status :: grading_status
  r_is_published :: bool
  r_submitted_at :: int

record time_extension =
  x_exam :: nat
  x_student :: nat
  x_additional_minutes :: int

text \<open>
  The database: one list of rows per table, each in the default ordering of its model
  (\<open>ExamAttempt\<close> and \<open>Result\<close> newest first, \<open>Answer\<close> oldest first).
\<close>

record db =
  exams :: "exam list"
  questions :: "question list"
  attempts :: "attempt list"
  answers :: "answer list"
  results :: "result list"
  extensions :: "time_extension list"

subsection \<open>Scoring an objective answer\<close>

text \<open>
  \<open>_extract_correct_tokens_from_options\<close>; \<open>option_tokens\<close> is one pass of its
  loop over \<open>enumerate(options)\<close>. \<open>chr(65 + idx)\<close> is a code point below 256 for the
  first 191 options.
\<close>

definition option_tokens :: "nat \<Rightarrow> json \<Rightarrow> string list" where
  "option_tokens idx opt =
     (case opt of
        JObj d \<Rightarrow>
          (if is_true (dict_get d ''isCorrect'') \<or> is_true (dict_get d ''is_correct'')
           then map norm_token
                  (filter (\<lambda>t. t \<noteq> JNull \<and> py_strip (py_str t) \<noteq> [])
                     [dict_get d ''id'', dict_get d ''value'', dict_get d ''text'',
                      JInt (int idx), JInt (int idx + 1), JStr [char_of (65 + idx)]])
           else [])
      | _ \<Rightarrow> [])"

definition extract_correct_tokens_from_options :: "question \<Rightarrow> string set" where
  "extract_correct_tokens_from_options question =
     set (concat (map (\<lambda>io. option_tokens (fst io) (snd io))
                    (enumerate 0 (q_options question))))"

text \<open>The set \<open>explicit\<close> that \<open>auto_evaluate_mcq\<close> builds from \<open>correct_answers\<close>.\<close>

definition explicit_tokens :: "question \<Rightarrow> string set" where
  "explicit_tokens question =
     set (map norm_token
            (filter (\<lambda>a. py_strip (py_str a) \<noteq> []) (q_correct_answers question)))"

definition auto_evaluate_mcq :: "attempt \<Rightarrow> question \<Rightarrow> json \<Rightarrow> rat" where
  "auto_evaluate_mcq attempt question student_answer =
     (if q_type question = Mcq then
        (let correct_tokens = extract_correct_tokens_from_options question;
             student_tokens = tokens_from_answer student_answer
         in if correct_tokens \<noteq> {} \<and> correct_tokens \<inter> student_tokens \<noteq> {}
            then q_points question else 0)
      else if q_type question = MultipleMcq then
        (let explicit = explicit_tokens question;
             correct_answers =
               (if explicit \<noteq> {} then explicit
                else extract_correct_tokens_from_options question);
             student_answers = tokens_from_answer student_answer
         in if correct_answers \<noteq> {} \<and> correct_answers = student_answers
            then q_points question else 0)
      else 0)"

subsection \<open>Grading status and the result of an attempt\<close>

definition is_manual :: "answer \<Rightarrow> bool" where
  "is_manual a = (q_type (an_question a) = Descriptive \<or> q_type (an_question a) = Coding)"

definition compute_grading_status :: "answer list \<Rightarrow> grading_status" where
  "compute_grading_status as =
     (let manual_answers = filter is_manual as
      in if manual_answers = [] then FullyGraded
         else
           (let graded_count = length (filter (\<lambda>a. an_score a \<noteq> None) manual_answers)
            in if graded_count = 0 then GradingPending
               else if graded_count < length manual_answers then PartiallyGraded
               else FullyGraded))"

text \<open>
  \<open>Model.save()\<close> writes the object over the row with its primary key, and inserts it
  when there is no such row.
\<close>

definition save_attempt :: "attempt \<Rightarrow> db \<Rightarrow> db" where
  "save_attempt a d =
     d\<lparr>attempts :=
         (if list_ex (\<lambda>r. at_id r = at_id a) (attempts d)
          then map (\<lambda>r. if at_id r = at_id a then a else r) (attempts d)
          else a # attempts d)\<rparr>"

definition save_answer :: "answer \<Rightarrow> db \<Rightarrow> db" where
  "save_answer a d =
     d\<lparr>answers :=
         (if list_ex (\<lambda>r. an_id r = an_id a) (answers d)
          then map (\<lambda>r. if an_id r = an_id a then a else r) (answers d)
          else answers d @ [a])\<rparr>"

text \<open>
  \<open>Result.objects.update_or_create(attempt=attempt, defaults=...)\<close>: the row of the
  attempt gets the new values and keeps \<open>is_published\<close>; without such a row one is
  created, unpublished. The one-to-one field admits one row for an attempt.
\<close>

definition update_or_create_result :: "result \<Rightarrow> db \<Rightarrow> db \<times> result" where
  "update_or_create_result new d =
     (case find (\<lambda>r. r_attempt r = r_attempt new) (results d) of
        Some old \<Rightarrow>
          (let upd = new\<lparr>r_is_published := r_is_published old\<rparr>
           in (d\<lparr>results := map (\<lambda>r. if r_attempt r = r_attempt new then upd else r)
                                (results d)\<rparr>, upd))
      | None \<Rightarrow>
          (let created = new\<lparr>r_is_published := False\<rparr>
           in (d\<lparr>results := created # results d\<rparr>, created)))"

text \<open>The first loop of \<open>calculate_exam_result\<close>: one answer in memory, then the rows.\<close>

definition grade_answer :: "attempt \<Rightarrow> answer \<Rightarrow> answer" where
  "grade_answer attempt a =
     (let question = an_question a
      in if q_type question = Mcq \<or> q_type question = MultipleMcq
         then a\<lparr>an_score := Some (auto_evaluate_mcq attempt question (an_answer a))\<rparr>
         else a)"

fun grade_loop :: "attempt \<Rightarrow> answer list \<Rightarrow> db \<Rightarrow> db" where
  "grade_loop attempt [] d = d"
| "grade_loop attempt (a # rest) d =
     (if q_type (an_question a) = Mcq \<or> q_type (an_question a) = MultipleMcq
      then grade_loop attempt rest (save_answer (grade_answer attempt a) d)
      else grade_loop attempt rest d)"

text \<open>The second loop: the sum of the scores that are not \<open>None\<close>.\<close>

definition sum_scores :: "answer list \<Rightarrow> rat" where
  "sum_scores as = sum_list (map (\<lambda>a. case an_score a of None \<Rightarrow> 0 | Some s \<Rightarrow> s) as)"

text \<open>
  \<open>calculate_exam_result(attempt)\<close> at the clock reading \<open>now\<close>: the database it
  leaves, the attempt object as mutated, and the \<open>Result\<close> it returns.
\<close>

definition calculate_exam_result :: "int \<Rightarrow> db \<Rightarrow> attempt \<Rightarrow> db \<times> attempt \<times> result" where
  "calculate_exam_result now d attempt =
     (let total_marks = e_total_marks (at_exam attempt);
          fetched = filter (\<lambda>a. an_attempt a = at_id attempt) (answers d);
          d1 = grade_loop attempt fetched d;
          graded = map (grade_answer attempt) fetched;
          obtained_marks = sum_scores graded;
          attempt1 = attempt\<lparr>at_total_score := Some total_marks,
                             at_obtained_score := Some obtained_marks\<rparr>;
          d2 = save_attempt attempt1 d1;
          grading = compute_grading_status graded;
          percentage = (if total_marks > 0 then obtained_marks / total_marks * 100 else 0);
          result_status =
            (if grading = FullyGraded
             then (if obtained_marks \<ge> e_passing_marks (at_exam attempt) then Pass else Fail)
             else ResultPending);
          (d3, res) =
            update_or_create_result
              \<lparr>r_attempt = at_id attempt1,
               r_exam = e_id (at_exam attempt1),
               r_student = at_student attempt1,
               r_total_marks = total_marks,
               r_obtained_marks = obtained_marks,
               r_percentage = percentage,
               r_status = result_status,
               r_grading_status = grading,
               r_is_published = False,
               r_submitted_at = (case at_submit_time attempt1 of Some t \<Rightarrow> t | None \<Rightarrow> now)\<rparr>
              d2
      in (d3, attempt1, res))"

subsection \<open>The deadline of an attempt\<close>

definition get_attempt_end_time :: "attempt \<Rightarrow> int" where
  "get_attempt_end_time attempt = e_end_time (at_exam attempt)"

text \<open>
  \<open>int(remaining.total_seconds())\<close> of a positive difference: the whole seconds in
  it, a second being 1000000 microseconds.
\<close>

definition get_attempt_remaining_time :: "int \<Rightarrow> attempt \<Rightarrow> int" where
  "get_attempt_remaining_time now attempt =
     (let end_time = get_attempt_end_time attempt
      in if now > end_time then 0 else (end_time - now) div 1000000)"

section \<open>The deadline sweep\<close>

text \<open>
  An exception that stops a run: a storage error, Django's \<open>ValidationError\<close> for a
  value that is no UUID, \<open>MultipleObjectsReturned\<close> and \<open>DoesNotExist\<close> of a
  \<open>get\<close> that nobody catches.
\<close>

datatype error = StorageError | ValidationError | MultipleObjectsReturned | DoesNotExist

text \<open>
  Where a run of \<open>calculate_exam_result\<close> raises: at its query for the answers, after
  the scores of the first \<open>k\<close> answers it fetched are stored, at \<open>attempt.save()\<close>, or at
  \<open>update_or_create\<close>. No transaction surrounds the function, so what it wrote before
  stays written: \<open>interrupted_calculate_exam_result\<close> is the database such a run leaves.
\<close>

datatype fault = FaultFetch | FaultAnswers nat | FaultAttemptSave | FaultUpsert

definition interrupted_calculate_exam_result :: "fault \<Rightarrow> db \<Rightarrow> attempt \<Rightarrow> db" where
  "interrupted_calculate_exam_result f d attempt =
     (let fetched = filter (\<lambda>a. an_attempt a = at_id attempt) (answers d)
      in case f of
           FaultFetch \<Rightarrow> d
         | FaultAnswers k \<Rightarrow> grade_loop attempt (take k fetched) d
         | FaultAttemptSave \<Rightarrow> grade_loop attempt fetched d
         | FaultUpsert \<Rightarrow>
             save_attempt
               (attempt\<lparr>at_total_score := Some (e_total_marks (at_exam attempt)),
                        at_obtained_score :=
                          Some (sum_scores (map (grade_answer attempt) fetched))\<rparr>)
               (grade_loop attempt fetched d))"

text \<open>
  \<open>auto_submit_expired_exams\<close> (exams/tasks.py). The loop runs over the attempts that
  were in progress when the task started; \<open>faults\<close> says for which attempt, and where,
  \<open>calculate_exam_result\<close> raises in this run. Nothing catches the exception: the task
  ends with it. Otherwise the task returns the number of attempts it submitted (the
  source wraps the number in a message).
\<close>

fun auto_submit_loop ::
  "(nat \<Rightarrow> fault option) \<Rightarrow> int \<Rightarrow> attempt list \<Rightarrow> db \<Rightarrow> nat \<Rightarrow> db \<times> (error + nat)" where
  "auto_submit_loop faults now [] d count = (d, Inr count)"
| "auto_submit_loop faults now (attempt # rest) d count =
     (let end_time = get_attempt_end_time attempt
      in if now > end_time then
           (let attempt1 = attempt\<lparr>at_status := AutoSubmitted, at_submit_time := Some end_time\<rparr>;
                d1 = save_attempt attempt1 d
            in case faults (at_id attempt) of
                 Some f \<Rightarrow> (interrupted_calculate_exam_result f d1 attempt1, Inl StorageError)
               | None \<Rightarrow>
                   auto_submit_loop faults now rest
                     (fst (calculate_exam_result now d1 attempt1)) (count + 1))
         else auto_submit_loop faults now rest d count)"

definition auto_submit_expired_exams ::
  "(nat \<Rightarrow> fault option) \<Rightarrow> int \<Rightarrow> db \<Rightarrow> db \<times> (error + nat)" where
  "auto_submit_expired_exams faults now d =
     auto_submit_loop faults now (filter (\<lambda>a. at_status a = InProgress) (attempts d)) d 0"

text \<open>
  \<open>Command.handle\<close> (exams/management/commands/auto\_submit\_exams.py): the same loop
  with \<open>calculate_exam_result\<close> inside \<open>try\<close>; after an exception the loop goes on
  with the next attempt and does not count the failed one.
\<close>

fun handle_loop ::
  "(nat \<Rightarrow> fault option) \<Rightarrow> int \<Rightarrow> attempt list \<Rightarrow> db \<Rightarrow> nat \<Rightarrow> db \<times> nat" where
  "handle_loop faults now [] d count = (d, count)"
| "handle_loop faults now (attempt # rest) d count =
     (let end_time = get_attempt_end_time attempt
      in if now > end_time then
           (let attempt1 = attempt\<lparr>at_status := AutoSubmitted, at_submit_time := Some end_time\<rparr>;
                d1 = save_attempt attempt1 d
            in case faults (at_id attempt) of
                 Some f \<Rightarrow>
                   handle_loop faults now rest
                     (interrupted_calculate_exam_result f d1 attempt1) count
               | None \<Rightarrow>
                   handle_loop faults now rest
                     (fst (calculate_exam_result now d1 attempt1)) (count + 1))
         else handle_loop faults now rest d count)"

definition handle :: "(nat \<Rightarrow> fault option) \<Rightarrow> int \<Rightarrow> db \<Rightarrow> db \<times> nat" where
  "handle faults now d =
     handle_loop faults now (filter (\<lambda>a. at_status a = InProgress) (attempts d)) d 0"

text \<open>A run in which nothing raises.\<close>

definition no_faults :: "nat \<Rightarrow> fault option" where
  "no_faults i = None"

section \<open>Eligibility (utils/helpers.py)\<close>

text \<open>
  \<open>re.sub(pattern + '+', ' ', s)\<close> for a pattern that matches one character: every
  maximal run of matching characters becomes one space.
\<close>

function sub_runs :: "(char \<Rightarrow> bool) \<Rightarrow> string \<Rightarrow> string" where
  "sub_runs p [] = []"
| "sub_runs p (c # cs) =
     (if p c then CHR '' '' # sub_runs p (dropWhile p cs) else c # sub_runs p cs)"
  by pat_completeness auto
termination
  by (relation "measure (\<lambda>(p, s). length s)")
     (auto simp: less_Suc_eq_le length_dropWhile_le)

definition is_lower_alnum :: "char \<Rightarrow> bool" where
  "is_lower_alnum c =
     (let n = (of_char c :: nat) in (97 \<le> n \<and> n \<le> 122) \<or> (48 \<le> n \<and> n \<le> 57))"

definition norm_department :: "json \<Rightarrow> string" where
  "norm_department v =
     (if v = JNull then []
      else py_strip (sub_runs is_space
             (sub_runs (\<lambda>c. \<not> is_lower_alnum c) (py_lower (py_strip (py_str v))))))"

definition DEPARTMENT_ALIASES :: "(string \<times> string) list" where
  "DEPARTMENT_ALIASES =
     [(''cs'', ''computer science''),
      (''cse'', ''computer science''),
      (''computer science engineering'', ''computer science''),
      (''it'', ''information technology''),
      (''ece'', ''electronics communication''),
      (''ee'', ''electrical engineering''),
      (''mech'', ''mechanical engineering''),
      (''civil'', ''civil engineering'')]"

definition expand_department_tokens :: "json \<Rightarrow> string set" where
  "expand_department_tokens v =
     (let norm = norm_department v
      in if norm = [] then {}
         else set (norm #
                concat (map (\<lambda>sf. (if norm = fst sf then [snd sf] else []) @
                                   (if norm = snd sf then [fst sf] else []))
                          DEPARTMENT_ALIASES)))"

text \<open>\<open>s.split(',')\<close>, \<open>p in s\<close> on strings, and \<open>s.startswith(p)\<close>.\<close>

fun split_comma :: "string \<Rightarrow> string list" where
  "split_comma [] = [[]]"
| "split_comma (c # cs) =
     (if c = CHR '','' then [] # split_comma cs
      else (case split_comma cs of [] \<Rightarrow> [[c]] | w # ws \<Rightarrow> (c # w) # ws))"

fun starts_with :: "string \<Rightarrow> string \<Rightarrow> bool" where
  "starts_with s [] = True"
| "starts_with [] (c # p) = False"
| "starts_with (a # s) (c # p) = (a = c \<and> starts_with s p)"

fun py_in :: "string \<Rightarrow> string \<Rightarrow> bool" where
  "py_in p [] = (p = [])"
| "py_in p (c # s) = (starts_with (c # s) p \<or> py_in p s)"

text \<open>The list \<open>allowed_list\<close> of \<open>is_department_allowed\<close>, when the function builds one.\<close>

definition allowed_list :: "json \<Rightarrow> json list option" where
  "allowed_list allowed_departments =
     (case allowed_departments of
        JStr s \<Rightarrow>
          (let raw0 = py_strip s;
               raw = (if starts_with raw0 ''['' \<and> starts_with (rev raw0) '']''
                      then butlast (tl raw0) else raw0)
           in Some (map (\<lambda>p. JStr (strip_chars (\<lambda>c. c = CHR 0x27)
                                     (strip_chars (\<lambda>c. c = CHR 0x22) (py_strip p))))
                      (split_comma raw)))
      | JList xs \<Rightarrow> Some xs
      | _ \<Rightarrow> None)"

text \<open>
  The loop over \<open>allowed_list\<close>: \<open>None\<close> when it returns \<open>True\<close> at a wildcard, else the
  set \<open>allowed_tokens\<close>.
\<close>

fun allowed_tokens_loop :: "json list \<Rightarrow> string set \<Rightarrow> string set option" where
  "allowed_tokens_loop [] acc = Some acc"
| "allowed_tokens_loop (dept # rest) acc =
     (let norm = norm_department dept
      in if norm = [] then allowed_tokens_loop rest acc
         else if norm \<in> {''all'', ''any'', ''everyone'', ''*''} then None
         else allowed_tokens_loop rest (acc \<union> expand_department_tokens (JStr norm)))"

definition is_department_allowed :: "json \<Rightarrow> json \<Rightarrow> bool" where
  "is_department_allowed user_department allowed_departments =
     (if \<not> py_truthy allowed_departments then True
      else case allowed_list allowed_departments of
             None \<Rightarrow> True
           | Some xs \<Rightarrow>
               (case allowed_tokens_loop xs {} of
                  None \<Rightarrow> True
                | Some allowed_tokens \<Rightarrow>
                    (if allowed_tokens = {} then True
                     else
                       (let user_tokens = expand_department_tokens user_department
                        in if user_tokens = {} then False
                           else if user_tokens \<inter> allowed_tokens \<noteq> {} then True
                           else (\<exists>u \<in> user_tokens. \<exists>a \<in> allowed_tokens.
                                   py_in u a \<or> py_in a u)))))"

text \<open>The student behind a request: the key of the user and the \<open>department\<close> column.\<close>

record user =
  u_id :: nat
  u_department :: "string option"

definition department_json :: "user \<Rightarrow> json" where
  "department_json u = (case u_department u of None \<Rightarrow> JNull | Some s \<Rightarrow> JStr s)"

text \<open>\<open>check_exam_eligibility(user, exam)\<close> at the clock reading \<open>now\<close>.\<close>

definition check_exam_eligibility :: "int \<Rightarrow> db \<Rightarrow> user \<Rightarrow> exam \<Rightarrow> bool \<times> string" where
  "check_exam_eligibility now d u exam =
     (if \<not> e_is_published exam then (False, ''Exam is not published yet'')
      else if now < e_start_time exam then (False, ''Exam has not started yet'')
      else if now > e_end_time exam then (False, ''Exam has ended'')
      else if \<not> is_department_allowed (department_json u) (e_allowed_departments exam)
        then (False, ''You are not allowed to attempt this exam'')
      else if list_ex (\<lambda>a. e_id (at_exam a) = e_id exam \<and> at_student a = u_id u) (attempts d)
        then (False, ''You have already attempted this exam'')
      else (True, ''Eligible to attempt''))"

section \<open>The student views (exams/views.py)\<close>

text \<open>
  Every view reads the clock once, as \<open>now\<close>. \<open>request.user\<close> is the \<open>user\<close>
  argument, the \<open>exam_id\<close> of the URL is a key, and \<open>request.data\<close> is a JSON value.
  A view returns the database it leaves and its response.
\<close>

subsection \<open>Starting and resuming an attempt\<close>

datatype start_response =
    StartExamNotFound
  | StartExpired
  | StartResumed nat int
  | StartAlreadySubmitted
  | StartNotEligible string
  | StartCreated nat int

text \<open>The HTTP status of each response.\<close>

fun start_status :: "start_response \<Rightarrow> nat" where
  "start_status StartExamNotFound = 404"
| "start_status StartExpired = 400"
| "start_status (StartResumed i t) = 200"
| "start_status StartAlreadySubmitted = 409"
| "start_status (StartNotEligible m) = 400"
| "start_status (StartCreated i t) = 201"

text \<open>A key that no row of the table has (\<open>uuid4\<close> in the source).\<close>

definition fresh_id :: "nat list \<Rightarrow> nat" where
  "fresh_id ids = Suc (fold max ids 0)"

text \<open>The loop that creates one empty answer for every question of the exam.\<close>

fun create_answers :: "nat \<Rightarrow> question list \<Rightarrow> db \<Rightarrow> db" where
  "create_answers aid [] d = d"
| "create_answers aid (question # rest) d =
     create_answers aid rest
       (d\<lparr>answers := answers d @
            [\<lparr>an_id = fresh_id (map an_id (answers d)), an_attempt = aid,
              an_question = question, an_answer = JObj [], an_code = None,
              an_score = None, an_evaluated_by = None, an_feedback = None\<rparr>]\<rparr>)"

text \<open>\<open>StudentStartExamView.create\<close>.\<close>

definition student_start_exam :: "int \<Rightarrow> user \<Rightarrow> nat \<Rightarrow> db \<Rightarrow> db \<times> start_response" where
  "student_start_exam now u exam_id d =
     (case find (\<lambda>e. e_id e = exam_id) (exams d) of
        None \<Rightarrow> (d, StartExamNotFound)
      | Some exam \<Rightarrow>
          (case find (\<lambda>a. e_id (at_exam a) = e_id exam \<and> at_student a = u_id u \<and>
                           at_status a = InProgress) (attempts d) of
             Some existing_attempt \<Rightarrow>
               (let remaining_time = get_attempt_remaining_time now existing_attempt
                in if remaining_time \<le> 0 \<or> now > e_end_time exam then
                     (let attempt1 = existing_attempt\<lparr>at_submit_time := Some now,
                                                        at_status := AutoSubmitted\<rparr>;
                          d1 = save_attempt attempt1 d
                      in (fst (calculate_exam_result now d1 attempt1), StartExpired))
                   else (d, StartResumed (at_id existing_attempt) remaining_time))
           | None \<Rightarrow>
               (case find (\<lambda>a. e_id (at_exam a) = e_id exam \<and> at_student a = u_id u \<and>
                                (at_status a = Submitted \<or> at_status a = AutoSubmitted))
                       (attempts d) of
                  Some submitted_attempt \<Rightarrow> (d, StartAlreadySubmitted)
                | None \<Rightarrow>
                    (let (eligible, message) = check_exam_eligibility now d u exam
                     in if \<not> eligible then (d, StartNotEligible message)
                        else
                          (let attempt =
                                 \<lparr>at_id = fresh_id (map at_id (attempts d)),
                                  at_exam = exam, at_student = u_id u, at_start_time = now,
                                  at_submit_time = None, at_status = InProgress,
                                  at_total_score = None, at_obtained_score = None\<rparr>;
                               d1 = d\<lparr>attempts := attempt # attempts d\<rparr>;
                               actual_remaining = get_attempt_remaining_time now attempt;
                               d2 = create_answers (at_id attempt)
                                      (filter (\<lambda>q. q_exam q = e_id exam) (questions d1)) d1
                           in (d2, StartCreated (at_id attempt) actual_remaining))))))"

subsection \<open>Storing answers\<close>

definition dicts_of :: "json list \<Rightarrow> (string \<times> json) list list" where
  "dicts_of xs = concat (map (\<lambda>x. case x of JObj d \<Rightarrow> [d] | _ \<Rightarrow> []) xs)"

definition payload_answer_items :: "json \<Rightarrow> (string \<times> json) list list" where
  "payload_answer_items payload =
     (case payload of
        JList xs \<Rightarrow> dicts_of xs
      | JObj p \<Rightarrow>
          (case dict_get p ''answers'' of
             JList xs \<Rightarrow> dicts_of xs
           | _ \<Rightarrow>
               (if list_ex (dict_has p)
                     [''question'', ''questionId'', ''question_id'', ''answer'', ''code'']
                then [p] else []))
      | _ \<Rightarrow> [])"

text \<open>What a \<open>TextField\<close> stores for a value: \<open>NULL\<close>, the string, or \<open>str\<close> of it.\<close>

definition code_value :: "json \<Rightarrow> string option" where
  "code_value v = (case v of JNull \<Rightarrow> None | JStr s \<Rightarrow> Some s | _ \<Rightarrow> Some (py_str v))"

definition is_str :: "json \<Rightarrow> bool" where
  "is_str v = (case v of JStr s \<Rightarrow> True | _ \<Rightarrow> False)"

text \<open>
  \<open>_persist_attempt_answers\<close>. The lookup \<open>Answer.objects.get(attempt=attempt,
  question_id=question_id)\<close> turns the value of the payload into a UUID first, with
  Django's \<open>UUIDField.to_python\<close>; that function is the parameter \<open>to_python\<close>, and
  \<open>None\<close> is its \<open>ValidationError\<close>, which the view does not catch. What the loop stored
  before an exception stays stored.
\<close>

fun persist_loop ::
  "(json \<Rightarrow> nat option) \<Rightarrow> attempt \<Rightarrow> (string \<times> json) list list \<Rightarrow> db \<Rightarrow> nat
     \<Rightarrow> db \<times> (error + nat)" where
  "persist_loop to_python attempt [] d saved_count = (d, Inr saved_count)"
| "persist_loop to_python attempt (item # rest) d saved_count =
     (let question_id = py_or (py_or (dict_get item ''question_id'')
                                     (dict_get item ''questionId''))
                              (dict_get item ''question'')
      in if \<not> py_truthy question_id then persist_loop to_python attempt rest d saved_count
         else
           (case to_python question_id of
              None \<Rightarrow> (d, Inl ValidationError)
            | Some qid \<Rightarrow>
                (case filter (\<lambda>r. an_attempt r = at_id attempt \<and> q_id (an_question r) = qid)
                        (answers d) of
                   [] \<Rightarrow> persist_loop to_python attempt rest d saved_count
                 | [a] \<Rightarrow>
                     (let has_answer_field = dict_has item ''answer'';
                          has_code_field = dict_has item ''code'';
                          a1 = (if has_answer_field
                                then a\<lparr>an_answer :=
                                         (if dict_get item ''answer'' = JNull then JObj []
                                          else dict_get item ''answer'')\<rparr>
                                else a);
                          a2 = (if has_code_field
                                then a1\<lparr>an_code := code_value (dict_get item ''code'')\<rparr>
                                else if q_type (an_question a1) = Coding \<and> has_answer_field \<and>
                                        is_str (dict_get item ''answer'')
                                then a1\<lparr>an_code := code_value (dict_get item ''answer'')\<rparr>
                                else a1)
                      in if has_answer_field \<or> has_code_field
                         then persist_loop to_python attempt rest (save_answer a2 d)
                                (saved_count + 1)
                         else persist_loop to_python attempt rest d saved_count)
                 | _ \<Rightarrow> (d, Inl MultipleObjectsReturned))))"

definition persist_attempt_answers ::
  "(json \<Rightarrow> nat option) \<Rightarrow> attempt \<Rightarrow> json \<Rightarrow> db \<Rightarrow> db \<times> (error + nat)" where
  "persist_attempt_answers to_python attempt payload d =
     persist_loop to_python attempt (payload_answer_items payload) d 0"

datatype save_response =
    SaveNoActiveAttempt
  | SaveExpired
  | SaveInvalidPayload
  | SaveOk nat
  | SaveRaised error

fun save_status :: "save_response \<Rightarrow> nat" where
  "save_status SaveNoActiveAttempt = 404"
| "save_status SaveExpired = 400"
| "save_status SaveInvalidPayload = 400"
| "save_status (SaveOk n) = 200"
| "save_status (SaveRaised e) = 500"

text \<open>
  \<open>StudentSaveAnswerView.update\<close>. \<open>ExamAttempt.objects.get\<close> raises
  \<open>DoesNotExist\<close>, which the view answers with 404, or \<open>MultipleObjectsReturned\<close>.
  The grace period is 30 seconds.
\<close>

definition student_save_answer ::
  "(json \<Rightarrow> nat option) \<Rightarrow> int \<Rightarrow> user \<Rightarrow> nat \<Rightarrow> json \<Rightarrow> db \<Rightarrow> db \<times> save_response" where
  "student_save_answer to_python now u exam_id payload d =
     (case filter (\<lambda>a. e_id (at_exam a) = exam_id \<and> at_student a = u_id u \<and>
                        at_status a = InProgress) (attempts d) of
        [] \<Rightarrow> (d, SaveNoActiveAttempt)
      | [attempt] \<Rightarrow>
          (let end_time = get_attempt_end_time attempt;
               grace_period = 30000000
           in if now > end_time + grace_period then (d, SaveExpired)
              else if payload_answer_items payload = [] then (d, SaveInvalidPayload)
              else
                (case persist_attempt_answers to_python attempt payload d of
                   (d1, Inl e) \<Rightarrow> (d1, SaveRaised e)
                 | (d1, Inr saved_count) \<Rightarrow> (d1, SaveOk saved_count)))
      | _ \<Rightarrow> (d, SaveRaised MultipleObjectsReturned))"

subsection \<open>Submitting\<close>

text \<open>
  Both successful responses are 200 with \<open>success: True\<close> and \<open>submittedAt\<close>; they
  differ in the message.
\<close>

datatype submit_response =
    SubmitDone "int option"
  | SubmitAlreadyDone "int option"
  | SubmitNotFound
  | SubmitRaised error

fun submit_status :: "submit_response \<Rightarrow> nat" where
  "submit_status (SubmitDone t) = 200"
| "submit_status (SubmitAlreadyDone t) = 200"
| "submit_status SubmitNotFound = 404"
| "submit_status (SubmitRaised e) = 500"

fun submittedAt :: "submit_response \<Rightarrow> int option" where
  "submittedAt (SubmitDone t) = t"
| "submittedAt (SubmitAlreadyDone t) = t"
| "submittedAt SubmitNotFound = None"
| "submittedAt (SubmitRaised e) = None"

text \<open>\<open>StudentSubmitExamView.create\<close>.\<close>

definition student_submit_exam ::
  "(json \<Rightarrow> nat option) \<Rightarrow> int \<Rightarrow> user \<Rightarrow> nat \<Rightarrow> json \<Rightarrow> db \<Rightarrow> db \<times> submit_response" where
  "student_submit_exam to_python now u exam_id payload d =
     (case find (\<lambda>a. e_id (at_exam a) = exam_id \<and> at_student a = u_id u \<and>
                      at_status a = InProgress) (attempts d) of
        Some attempt \<Rightarrow>
          (case persist_attempt_answers to_python attempt payload d of
             (d1, Inl e) \<Rightarrow> (d1, SubmitRaised e)
           | (d1, Inr saved_count) \<Rightarrow>
               (let attempt1 = attempt\<lparr>at_submit_time := Some now, at_status := Submitted\<rparr>;
                    d2 = save_attempt attempt1 d1;
                    (d3, attempt2, res) = calculate_exam_result now d2 attempt1
                in (d3, SubmitDone (at_submit_time attempt2))))
      | None \<Rightarrow>
          (case find (\<lambda>a. e_id (at_exam a) = exam_id \<and> at_student a = u_id u \<and>
                           (at_status a = Submitted \<or> at_status a = AutoSubmitted))
                  (attempts d) of
             Some already_submitted \<Rightarrow> (d, SubmitAlreadyDone (at_submit_time already_submitted))
           | None \<Rightarrow> (d, SubmitNotFound)))"

section \<open>The staff views (exams/views.py)\<close>

datatype evaluate_response =
    EvalAnswerNotFound
  | EvalNegativeScore
  | EvalScoreTooHigh
  | EvalOk
  | EvalRaised error

text \<open>
  \<open>StaffEvaluateAnswerView.create\<close>, from the point where \<open>questionId\<close>, \<open>score\<close> and
  \<open>feedback\<close> are read from the request: \<open>grader\<close> is \<open>request.user\<close>.
  \<open>answer.attempt\<close> reads the attempt of the answer from the database.
\<close>

definition staff_evaluate_answer ::
  "int \<Rightarrow> nat \<Rightarrow> nat \<Rightarrow> nat \<Rightarrow> rat \<Rightarrow> string \<Rightarrow> db \<Rightarrow> db \<times> evaluate_response" where
  "staff_evaluate_answer now grader attempt_id question_id score feedback d =
     (case filter (\<lambda>r. an_attempt r = attempt_id \<and> q_id (an_question r) = question_id)
             (answers d) of
        [] \<Rightarrow> (d, EvalAnswerNotFound)
      | [a] \<Rightarrow>
          (if score < 0 then (d, EvalNegativeScore)
           else if score > q_points (an_question a) then (d, EvalScoreTooHigh)
           else
             (let a1 = a\<lparr>an_score := Some score, an_feedback := Some feedback,
                         an_evaluated_by := Some grader\<rparr>;
                  d1 = save_answer a1 d
              in case find (\<lambda>t. at_id t = an_attempt a1) (attempts d1) of
                   None \<Rightarrow> (d1, EvalRaised DoesNotExist)
                 | Some attempt \<Rightarrow> (fst (calculate_exam_result now d1 attempt), EvalOk)))
      | _ \<Rightarrow> (d, EvalRaised MultipleObjectsReturned))"

text \<open>
  \<open>StaffExamViewSet.finalize_results\<close>, up to the summary it returns: the results of
  all submitted attempts of an exam are computed again, unless the exam is still
  running with an attempt in progress.
\<close>

fun finalize_loop :: "int \<Rightarrow> attempt list \<Rightarrow> db \<Rightarrow> db" where
  "finalize_loop now [] d = d"
| "finalize_loop now (attempt # rest) d =
     finalize_loop now rest (fst (calculate_exam_result now d attempt))"

definition finalize_results :: "int \<Rightarrow> nat \<Rightarrow> db \<Rightarrow> db \<times> bool" where
  "finalize_results now exam_id d =
     (case find (\<lambda>e. e_id e = exam_id) (exams d) of
        None \<Rightarrow> (d, False)
      | Some exam \<Rightarrow>
          (if e_end_time exam > now \<and>
              filter (\<lambda>a. e_id (at_exam a) = e_id exam \<and> at_status a = InProgress)
                (attempts d) \<noteq> []
           then (d, False)
           else
             (finalize_loop now
                (filter (\<lambda>a. e_id (at_exam a) = e_id exam \<and>
                              (at_status a = Submitted \<or> at_status a = AutoSubmitted))
                   (attempts d)) d,
              True)))"

section \<open>Sequences of operations\<close>

text \<open>
  The operations the core exposes, each with its arguments; an event is an operation
  and the clock reading it runs at.
\<close>

datatype operation =
    Start user nat
  | Save user nat json
  | Submit user nat json
  | GradeAnswer nat nat nat rat string
  | Recompute nat
  | SweepTask "nat \<Rightarrow> fault option"
  | SweepCommand "nat \<Rightarrow> fault option"

fun apply_operation :: "(json \<Rightarrow> nat option) \<Rightarrow> int \<Rightarrow> operation \<Rightarrow> db \<Rightarrow> db" where
  "apply_operation tp now (Start u e) d = fst (student_start_exam now u e d)"
| "apply_operation tp now (Save u e p) d = fst (student_save_answer tp now u e p d)"
| "apply_operation tp now (Submit u e p) d = fst (student_submit_exam tp now u e p d)"
| "apply_operation tp now (GradeAnswer g a q s f) d = fst (staff_evaluate_answer now g a q s f d)"
| "apply_operation tp now (Recompute e) d = fst (finalize_results now e d)"
| "apply_operation tp now (SweepTask faults) d = fst (auto_submit_expired_exams faults now d)"
| "apply_operation tp now (SweepCommand faults) d = fst (handle faults now d)"

fun run :: "(json \<Rightarrow> nat option) \<Rightarrow> (int \<times> operation) list \<Rightarrow> db \<Rightarrow> db" where
  "run tp [] d = d"
| "run tp (ev # evs) d = run tp evs (apply_operation tp (fst ev) (snd ev) d)"

text \<open>The row of an attempt, by its key, and the row of its result.\<close>

definition attempt_row :: "db \<Rightarrow> nat \<Rightarrow> attempt option" where
  "attempt_row d i = find (\<lambda>a. at_id a = i) (attempts d)"

definition result_row :: "db \<Rightarrow> nat \<Rightarrow> result option" where
  "result_row d i = find (\<lambda>r. r_attempt r = i) (results d)"

definition attempt_answers :: "db \<Rightarrow> nat \<Rightarrow> answer list" where
  "attempt_answers d i = filter (\<lambda>a. an_attempt a = i) (answers d)"

text \<open>
  The constraints of the tables: primary keys are unique, and so are the pairs of exam
  and student of the attempts (\<open>unique_together\<close>).
\<close>

definition wf_db :: "db \<Rightarrow> bool" where
  "wf_db d =
     (distinct (map at_id (attempts d)) \<and>
      distinct (map (\<lambda>a. (e_id (at_exam a), at_student a)) (attempts d)) \<and>
      distinct (map an_id (answers d)))"

section \<open>The deadline resolver of the specification\<close>

text \<open>
  The specification's \<open>resolveDeadline(exam, extension?)\<close>, in its words: the end time
  of the exam plus the additional minutes of the extension when the student has one,
  else the end time of the exam. \<open>active_extension\<close> is the extension stored for an exam
  and a student.
\<close>

definition spec_resolveDeadline :: "exam \<Rightarrow> time_extension option \<Rightarrow> int" where
  "spec_resolveDeadline exam extension =
     (case extension of
        Some x \<Rightarrow> e_end_time exam + x_additional_minutes x * 60000000
      | None \<Rightarrow> e_end_time exam)"

definition active_extension :: "db \<Rightarrow> nat \<Rightarrow> nat \<Rightarrow> time_extension option" where
  "active_extension d exam_id student =
     find (\<lambda>x. x_exam x = exam_id \<and> x_student x = student) (extensions d)"

definition spec_remainingSeconds :: "exam \<Rightarrow> time_extension option \<Rightarrow> int \<Rightarrow> int" where
  "spec_remainingSeconds exam extension now =
     max 0 ((spec_resolveDeadline exam extension - now) div 1000000)"

section \<open>Example data\<close>

text \<open>
  The exam of the scenarios: 10 marks, 4 to pass, open from 0 to 3600 seconds. Question 1
  is a single-choice question worth 10 points whose first option, with id 1, is correct;
  question 2 is a descriptive question worth 10 points.
\<close>

definition ex_exam :: exam where
  "ex_exam =
     \<lparr>e_id = 1, e_start_time = 0, e_end_time = 3600000000, e_total_marks = 10,
      e_passing_marks = 4, e_is_published = True, e_allowed_departments = JList []\<rparr>"

definition ex_mcq :: question where
  "ex_mcq =
     \<lparr>q_id = 1, q_exam = 1, q_type = Mcq, q_points = 10,
      q_options = [JObj [(''id'', JInt 1), (''isCorrect'', JBool True)]],
      q_correct_answers = []\<rparr>"

definition ex_descriptive :: question where
  "ex_descriptive =
     \<lparr>q_id = 2, q_exam = 1, q_type = Descriptive, q_points = 10,
      q_options = [], q_correct_answers = []\<rparr>"

text \<open>Attempt 7 of student 3, submitted at 100 seconds, and its single answer.\<close>

definition ex_attempt :: attempt where
  "ex_attempt =
     \<lparr>at_id = 7, at_exam = ex_exam, at_student = 3, at_start_time = 5000000,
      at_submit_time = Some 100000000, at_status = Submitted,
      at_total_score = None, at_obtained_score = None\<rparr>"

definition ex_answer :: "question \<Rightarrow> json \<Rightarrow> answer" where
  "ex_answer question payload =
     \<lparr>an_id = 1, an_attempt = 7, an_question = question, an_answer = payload,
      an_code = None, an_score = None, an_evaluated_by = None, an_feedback = None\<rparr>"

definition ex_db :: "attempt \<Rightarrow> answer \<Rightarrow> db" where
  "ex_db attempt a =
     \<lparr>exams = [ex_exam], questions = [ex_mcq, ex_descriptive], attempts = [attempt],
      answers = [a], results = [], extensions = []\<rparr>"

text \<open>The same attempt while it is in progress.\<close>

definition ex_in_progress :: attempt where
  "ex_in_progress = ex_attempt\<lparr>at_submit_time := None, at_status := InProgress\<rparr>"

text \<open>
  Two multi-select questions with one correct option, of id 1: \<open>ex_multi\<close> lists the
  correct answers \<open>A\<close> and \<open>C\<close>, \<open>ex_multi_blank\<close> lists one blank entry.
\<close>

definition ex_multi :: question where
  "ex_multi =
     \<lparr>q_id = 3, q_exam = 1, q_type = MultipleMcq, q_points = 10,
      q_options = [JObj [(''id'', JInt 1), (''isCorrect'', JBool True)]],
      q_correct_answers = [JStr ''A'', JStr ''C'']\<rparr>"

definition ex_multi_blank :: question where
  "ex_multi_blank = ex_multi\<lparr>q_correct_answers := [JStr []]\<rparr>"

text \<open>An extension of 20 minutes for student 3 in the exam.\<close>

definition ex_extension :: time_extension where
  "ex_extension = \<lparr>x_exam = 1, x_student = 3, x_additional_minutes = 20\<rparr>"

definition ex_student :: user where
  "ex_student = \<lparr>u_id = 3, u_department = Some ''CS''\<rparr>"

text \<open>The database before student 3 starts, with the extension stored.\<close>

definition ex_db_extended :: db where
  "ex_db_extended =
     \<lparr>exams = [ex_exam], questions = [ex_mcq, ex_descriptive], attempts = [],
      answers = [], results = [], extensions = [ex_extension]\<rparr>"

text \<open>
  The multi-select score in the words of the specification: the correct set is the
  normalisation of \<open>correct_answers\<close> when that list is not empty, else the tokens of
  the options flagged correct; full points when the submitted tokens are this set and
  the set is not empty, else nothing.
\<close>

definition spec_multiple_mcq_correct :: "question \<Rightarrow> string set" where
  "spec_multiple_mcq_correct question =
     (if q_correct_answers question \<noteq> [] then explicit_tokens question
      else extract_correct_tokens_from_options question)"

definition spec_multiple_mcq_score :: "question \<Rightarrow> json \<Rightarrow> rat" where
  "spec_multiple_mcq_score question student_answer =
     (if tokens_from_answer student_answer = spec_multiple_mcq_correct question \<and>
         spec_multiple_mcq_correct question \<noteq> {}
      then q_points question else 0)"

section \<open>Auxiliary notions for the proofs\<close>

text \<open>The rows of the \<open>Result\<close> table after the upsert that yields the row \<open>u\<close>.\<close>

definition upsert_rows :: "result \<Rightarrow> result list \<Rightarrow> result list" where
  "upsert_rows u rs =
     (if find (\<lambda>r. r_attempt r = r_attempt u) rs = None then u # rs
      else map (\<lambda>r. if r_attempt r = r_attempt u then u else r) rs)"

text \<open>The number of \<open>Result\<close> rows of an attempt.\<close>

definition result_count :: "db \<Rightarrow> nat \<Rightarrow> nat" where
  "result_count d i = length (filter (\<lambda>r. r_attempt r = i) (results d))"

text \<open>
  The columns of an attempt that the result computation does not write, and the row an
  expired attempt is given by the sweep.
\<close>

definition attempt_core ::
  "attempt \<Rightarrow> nat \<times> exam \<times> nat \<times> int \<times> int option \<times> attempt_status" where
  "attempt_core a =
     (at_id a, at_exam a, at_student a, at_start_time a, at_submit_time a, at_status a)"

definition finalise :: "attempt \<Rightarrow> attempt" where
  "finalise a = a\<lparr>at_status := AutoSubmitted, at_submit_time := Some (get_attempt_end_time a)\<rparr>"

definition core_row :: "db \<Rightarrow> nat \<Rightarrow> (nat \<times> exam \<times> nat \<times> int \<times> int option \<times> attempt_status) option" where
  "core_row d i = map_option attempt_core (attempt_row d i)"

text \<open>One pass of the loop of \<open>Command.handle\<close> for an expired attempt.\<close>

definition handle_step :: "(nat \<Rightarrow> fault option) \<Rightarrow> int \<Rightarrow> attempt \<Rightarrow> db \<Rightarrow> db" where
  "handle_step faults now x d =
     (case faults (at_id x) of
        Some f \<Rightarrow> interrupted_calculate_exam_result f (save_attempt (finalise x) d) (finalise x)
      | None \<Rightarrow> fst (calculate_exam_result now (save_attempt (finalise x) d) (finalise x)))"

text \<open>
  Two attempts in progress in the exam, of students 3 and 4, each with one answer to
  the single-choice question; attempt 8 is the newer one.
\<close>

definition ex_db_two :: db where
  "ex_db_two =
     \<lparr>exams = [ex_exam], questions = [ex_mcq, ex_descriptive],
      attempts = [ex_in_progress\<lparr>at_id := 8, at_student := 4\<rparr>, ex_in_progress],
      answers = [ex_answer ex_mcq (JStr ''1''),
                 (ex_answer ex_mcq (JStr ''2''))\<lparr>an_id := 2, an_attempt := 8\<rparr>],
      results = [], extensions = []\<rparr>"

text \<open>A run of the sweep in which the result computation of attempt 8 raises at once.\<close>

definition ex_faults :: "nat \<Rightarrow> fault option" where
  "ex_faults i = (if i = 8 then Some FaultFetch else None)"

text \<open>Attempt 7 in progress, with the extension of student 3 stored.\<close>

definition ex_db_in_progress_extended :: db where
  "ex_db_in_progress_extended =
     (ex_db ex_in_progress (ex_answer ex_mcq (JStr ''1'')))\<lparr>extensions := [ex_extension]\<rparr>"

text \<open>The status and the submit time stored for an attempt.\<close>

definition attempt_status_of :: "db \<Rightarrow> nat \<Rightarrow> attempt_status option" where
  "attempt_status_of d i = map_option at_status (attempt_row d i)"

definition submit_time_of :: "db \<Rightarrow> nat \<Rightarrow> int option option" where
  "submit_time_of d i = map_option at_submit_time (attempt_row d i)"

text \<open>
  A stand-in for \<open>UUIDField.to_python\<close> in the examples: keys are sent as JSON
  numbers, every other value is refused.
\<close>

definition ex_to_python :: "json \<Rightarrow> nat option" where
  "ex_to_python v = (case v of JInt n \<Rightarrow> (if 0 \<le> n then Some (nat n) else None) | _ \<Rightarrow> None)"

text \<open>The request body that answers question 1 with \<open>"1"\<close>.\<close>

definition ex_payload :: json where
  "ex_payload = JObj [(''questionId'', JInt 1), (''answer'', JStr ''1'')]"

text \<open>
  From one database to another, the keys of the attempts stay unique and every
  attempt that is not in progress keeps its row, up to the scores.
\<close>

definition terminal_kept :: "db \<Rightarrow> db \<Rightarrow> bool" where
  "terminal_kept d d' =
     (distinct (map at_id (attempts d')) \<and>
      (\<forall>i t. attempt_row d i = Some t \<longrightarrow> at_status t \<noteq> InProgress \<longrightarrow>
             core_row d' i = Some (attempt_core t)))"

text \<open>
  Attempt 7 of student 3, submitted, beside attempt 8 of student 4, in progress; and a
  day of operations on them: student 3 starts and saves and submits again, a grader
  scores an answer, the results are finalised, and both sweeps run after the end of
  the exam.
\<close>

definition ex_db_mixed :: db where
  "ex_db_mixed = ex_db_two\<lparr>attempts := [ex_in_progress\<lparr>at_id := 8, at_student := 4\<rparr>, ex_attempt]\<rparr>"

definition ex_events :: "(int \<times> operation) list" where
  "ex_events =
     [(3000000000, Start ex_student 1),
      (3001000000, Save ex_student 1 ex_payload),
      (3002000000, Submit ex_student 1 ex_payload),
      (3003000000, GradeAnswer 9 7 1 5 ''ok''),
      (3700000000, Recompute 1),
      (4000000000, SweepTask ex_faults),
      (4060000000, SweepCommand no_faults)]"

section \<open>The result of an attempt\<close>

lemma update_or_create_result_snd:
  "snd (update_or_create_result new d) =
     new\<lparr>r_is_published :=
           (case find (\<lambda>r. r_attempt r = r_attempt new) (results d) of
              Some old \<Rightarrow> r_is_published old | None \<Rightarrow> False)\<rparr>"
  by (simp add: update_or_create_result_def Let_def split: option.splits)

lemma save_answer_frame [simp]:
  "results (save_answer a d) = results d"
  "attempts (save_answer a d) = attempts d"
  "exams (save_answer a d) = exams d"
  "questions (save_answer a d) = questions d"
  "extensions (save_answer a d) = extensions d"
  by (simp_all add: save_answer_def)

lemma save_attempt_frame [simp]:
  "results (save_attempt a d) = results d"
  "answers (save_attempt a d) = answers d"
  "exams (save_attempt a d) = exams d"
  "questions (save_attempt a d) = questions d"
  "extensions (save_attempt a d) = extensions d"
  by (simp_all add: save_attempt_def)

lemma grade_loop_frame [simp]:
  "results (grade_loop a xs d) = results d"
  "attempts (grade_loop a xs d) = attempts d"
  "exams (grade_loop a xs d) = exams d"
  "questions (grade_loop a xs d) = questions d"
  "extensions (grade_loop a xs d) = extensions d"
  by (induction a xs d rule: grade_loop.induct; simp)+

text \<open>The \<open>Result\<close> that \<open>calculate_exam_result\<close> returns, field by field.\<close>

lemma calculate_exam_result_res:
  "snd (snd (calculate_exam_result now d attempt)) =
     (let graded = map (grade_answer attempt)
                     (filter (\<lambda>a. an_attempt a = at_id attempt) (answers d));
          total_marks = e_total_marks (at_exam attempt);
          obtained_marks = sum_scores graded;
          grading = compute_grading_status graded
      in \<lparr>r_attempt = at_id attempt,
          r_exam = e_id (at_exam attempt),
          r_student = at_student attempt,
          r_total_marks = total_marks,
          r_obtained_marks = obtained_marks,
          r_percentage = (if total_marks > 0 then obtained_marks / total_marks * 100 else 0),
          r_status =
            (if grading = FullyGraded
             then (if obtained_marks \<ge> e_passing_marks (at_exam attempt) then Pass else Fail)
             else ResultPending),
          r_grading_status = grading,
          r_is_published =
            (case find (\<lambda>r. r_attempt r = at_id attempt) (results d) of
               Some old \<Rightarrow> r_is_published old | None \<Rightarrow> False),
          r_submitted_at = (case at_submit_time attempt of Some t \<Rightarrow> t | None \<Rightarrow> now)\<rparr>)"
  by (simp add: calculate_exam_result_def Let_def split_beta update_or_create_result_snd)

text \<open>
  Claim C5. In every \<open>Result\<close> that \<open>calculate_exam_result\<close> returns: when its
  grading status is \<open>fully_graded\<close>, its status is \<open>pass\<close> exactly when the obtained
  marks reach the passing marks of the exam and \<open>fail\<close> exactly when they do not; when
  its grading status is not \<open>fully_graded\<close>, its status is \<open>pending\<close>.
\<close>

theorem calculate_exam_result_status:
  "(r_grading_status (snd (snd (calculate_exam_result now d attempt))) = FullyGraded \<longrightarrow>
      (r_status (snd (snd (calculate_exam_result now d attempt))) = Pass \<longleftrightarrow>
         r_obtained_marks (snd (snd (calculate_exam_result now d attempt)))
           \<ge> e_passing_marks (at_exam attempt)) \<and>
      (r_status (snd (snd (calculate_exam_result now d attempt))) = Fail \<longleftrightarrow>
         r_obtained_marks (snd (snd (calculate_exam_result now d attempt)))
           < e_passing_marks (at_exam attempt))) \<and>
   (r_grading_status (snd (snd (calculate_exam_result now d attempt))) \<noteq> FullyGraded \<longrightarrow>
      r_status (snd (snd (calculate_exam_result now d attempt))) = ResultPending)"
  by (simp add: calculate_exam_result_res Let_def)

text \<open>
  The two scenarios: the single-choice question answered \<open>"1"\<close> is fully graded with
  10 marks and passes; the descriptive question, not yet graded, leaves the result
  pending.
\<close>

theorem calculate_exam_result_status_witness:
  "r_grading_status
     (snd (snd (calculate_exam_result 200000000
                  (ex_db ex_attempt (ex_answer ex_mcq (JStr ''1''))) ex_attempt))) = FullyGraded
   \<and> r_obtained_marks
     (snd (snd (calculate_exam_result 200000000
                  (ex_db ex_attempt (ex_answer ex_mcq (JStr ''1''))) ex_attempt))) = 10
   \<and> r_status
     (snd (snd (calculate_exam_result 200000000
                  (ex_db ex_attempt (ex_answer ex_mcq (JStr ''1''))) ex_attempt))) = Pass
   \<and> r_grading_status
     (snd (snd (calculate_exam_result 200000000
                  (ex_db ex_attempt (ex_answer ex_descriptive (JStr ''an essay'')))
                  ex_attempt))) = GradingPending
   \<and> r_status
     (snd (snd (calculate_exam_result 200000000
                  (ex_db ex_attempt (ex_answer ex_descriptive (JStr ''an essay'')))
                  ex_attempt))) = ResultPending"
proof -
  let ?r1 = "snd (snd (calculate_exam_result 200000000
                  (ex_db ex_attempt (ex_answer ex_mcq (JStr ''1''))) ex_attempt))"
  let ?r2 = "snd (snd (calculate_exam_result 200000000
                  (ex_db ex_attempt (ex_answer ex_descriptive (JStr ''an essay'')))
                  ex_attempt))"
  have g1: "r_grading_status ?r1 = FullyGraded"
    by code_simp
  have m1: "r_obtained_marks ?r1 = 10"
    by code_simp
  have p: "e_passing_marks (at_exam ex_attempt) = 4"
    by (simp add: ex_attempt_def ex_exam_def)
  have g2: "r_grading_status ?r2 = GradingPending"
    by code_simp
  from calculate_exam_result_status
         [of 200000000 "ex_db ex_attempt (ex_answer ex_mcq (JStr ''1''))" ex_attempt]
       g1 m1 p
  have s1: "r_status ?r1 = Pass"
    by simp
  from calculate_exam_result_status
         [of 200000000 "ex_db ex_attempt (ex_answer ex_descriptive (JStr ''an essay''))"
             ex_attempt]
       g2
  have s2: "r_status ?r2 = ResultPending"
    by simp
  from g1 m1 s1 g2 s2 show ?thesis
    by simp
qed


section \<open>Rows by key\<close>

lemma find_map_replace:
  "find (\<lambda>a. at_id a = i) (map (\<lambda>r. if at_id r = at_id a then a else r) xs) =
     (if i = at_id a then (if list_ex (\<lambda>r. at_id r = at_id a) xs then Some a else None)
      else find (\<lambda>a. at_id a = i) xs)"
  by (induction xs) auto

lemma attempt_row_save_attempt:
  "attempt_row (save_attempt a d) i = (if i = at_id a then Some a else attempt_row d i)"
  by (simp add: attempt_row_def save_attempt_def find_map_replace)

lemma save_attempt_ids:
  "map at_id (attempts (save_attempt a d)) =
     (if list_ex (\<lambda>r. at_id r = at_id a) (attempts d) then map at_id (attempts d)
      else at_id a # map at_id (attempts d))"
  by (auto simp: save_attempt_def intro!: map_idI)

lemma find_map_replace_result:
  "find (\<lambda>r. r_attempt r = i) (map (\<lambda>r. if r_attempt r = k then u else r) xs) =
     (if find (\<lambda>r. r_attempt r = k) xs = None \<or> r_attempt u = k
      then (if i = k then (if find (\<lambda>r. r_attempt r = k) xs = None then None else Some u)
            else find (\<lambda>r. r_attempt r = i) xs)
      else find (\<lambda>r. r_attempt r = i) (map (\<lambda>r. if r_attempt r = k then u else r) xs))"
  by (induction xs) auto

lemma result_row_update_or_create:
  "result_row (fst (update_or_create_result new d)) i =
     (if i = r_attempt new then Some (snd (update_or_create_result new d))
      else result_row d i)"
  by (auto simp: result_row_def update_or_create_result_def Let_def find_map_replace_result
           split: option.splits)

lemma calculate_exam_result_attempt:
  "fst (snd (calculate_exam_result now d a)) =
     a\<lparr>at_total_score := Some (e_total_marks (at_exam a)),
       at_obtained_score :=
         Some (sum_scores (map (grade_answer a) (attempt_answers d (at_id a))))\<rparr>"
  by (simp add: calculate_exam_result_def Let_def split_beta attempt_answers_def)

lemma calculate_exam_result_attempts:
  "attempts (fst (calculate_exam_result now d a)) =
     attempts (save_attempt (fst (snd (calculate_exam_result now d a))) d)"
  by (simp add: calculate_exam_result_def Let_def split_beta update_or_create_result_def
        save_attempt_def split: option.splits)

lemma attempt_row_calculate:
  "attempt_row (fst (calculate_exam_result now d a)) i =
     (if i = at_id a then Some (fst (snd (calculate_exam_result now d a)))
      else attempt_row d i)"
  using attempt_row_save_attempt[of "fst (snd (calculate_exam_result now d a))" d i]
  by (simp add: attempt_row_def calculate_exam_result_attempts calculate_exam_result_attempt)

lemma calculate_exam_result_answers:
  "answers (fst (calculate_exam_result now d a)) =
     answers (grade_loop a (attempt_answers d (at_id a)) d)"
  by (simp add: calculate_exam_result_def Let_def split_beta update_or_create_result_def
        attempt_answers_def split: option.splits)

lemma result_row_calculate:
  "result_row (fst (calculate_exam_result now d a)) i =
     (if i = at_id a then Some (snd (snd (calculate_exam_result now d a)))
      else result_row d i)"
  apply (simp add: calculate_exam_result_def Let_def split_beta)
  apply (simp add: result_row_update_or_create)
  apply (simp add: result_row_def)
  done


section \<open>The first loop of the result computation\<close>

lemma grade_answer_keys [simp]:
  "an_id (grade_answer a r) = an_id r"
  "an_attempt (grade_answer a r) = an_attempt r"
  "an_question (grade_answer a r) = an_question r"
  "an_answer (grade_answer a r) = an_answer r"
  by (simp_all add: grade_answer_def Let_def)

lemma auto_evaluate_mcq_attempt:
  "auto_evaluate_mcq a q x = auto_evaluate_mcq b q x"
  by (simp add: auto_evaluate_mcq_def)

lemma grade_answer_attempt:
  "grade_answer a r = grade_answer b r"
  by (simp add: grade_answer_def Let_def auto_evaluate_mcq_attempt[of a _ _ b])

lemma grade_answer_idem:
  "grade_answer a (grade_answer b r) = grade_answer b r"
  by (simp add: grade_answer_def Let_def auto_evaluate_mcq_attempt[of a _ _ b])

lemma grade_answer_manual:
  "\<not> (q_type (an_question r) = Mcq \<or> q_type (an_question r) = MultipleMcq) \<Longrightarrow>
     grade_answer a r = r"
  by (simp add: grade_answer_def Let_def)

lemma save_answer_existing:
  assumes "distinct (map an_id (answers d))" and "r \<in> set (answers d)"
    and "an_id r' = an_id r"
  shows "answers (save_answer r' d) = map (\<lambda>x. if x = r then r' else x) (answers d)"
proof -
  have ex: "list_ex (\<lambda>x. an_id x = an_id r') (answers d)"
    using assms by (auto simp: list_ex_iff)
  have "\<And>x. x \<in> set (answers d) \<Longrightarrow> (an_id x = an_id r') = (x = r)"
    using assms by (auto simp: distinct_map inj_on_def)
  then have "map (\<lambda>x. if an_id x = an_id r' then r' else x) (answers d)
               = map (\<lambda>x. if x = r then r' else x) (answers d)"
    by (intro map_cong) auto
  with ex show ?thesis by (simp add: save_answer_def)
qed

lemma grade_loop_answers:
  assumes "distinct (map an_id (answers d))" and "set xs \<subseteq> set (answers d)"
    and "distinct xs"
  shows "answers (grade_loop a xs d) =
           map (\<lambda>r. if r \<in> set xs then grade_answer a r else r) (answers d)"
  using assms
proof (induction xs arbitrary: d)
  case Nil
  then show ?case by simp
next
  case (Cons x xs)
  let ?g = "grade_answer a"
  show ?case
  proof (cases "q_type (an_question x) = Mcq \<or> q_type (an_question x) = MultipleMcq")
    case False
    then have gx: "?g x = x" by (simp add: grade_answer_manual)
    have "answers (grade_loop a xs d) =
            map (\<lambda>r. if r \<in> set xs then ?g r else r) (answers d)"
      using Cons by auto
    also have "\<dots> = map (\<lambda>r. if r \<in> set (x # xs) then ?g r else r) (answers d)"
      using gx by (intro map_cong) auto
    finally show ?thesis using False by simp
  next
    case True
    let ?d1 = "save_answer (?g x) d"
    have a1: "answers ?d1 = map (\<lambda>r. if r = x then ?g x else r) (answers d)"
      using Cons.prems by (intro save_answer_existing) auto
    have ids: "map an_id (answers ?d1) = map an_id (answers d)"
      by (simp add: a1 comp_def if_distrib cong: if_cong)
    have d1: "distinct (map an_id (answers ?d1))"
      using Cons.prems ids by simp
    have sub: "set xs \<subseteq> set (answers ?d1)"
      using Cons.prems by (auto simp: a1)
    have "answers (grade_loop a xs ?d1) =
            map (\<lambda>r. if r \<in> set xs then ?g r else r) (answers ?d1)"
      using Cons.IH[OF d1 sub] Cons.prems by simp
    also have "\<dots> = map (\<lambda>r. if r \<in> set (x # xs) then ?g r else r) (answers d)"
    proof -
      have "\<And>r. r \<in> set (answers d) \<Longrightarrow>
              (if (if r = x then ?g x else r) \<in> set xs
               then ?g (if r = x then ?g x else r) else (if r = x then ?g x else r))
            = (if r \<in> set (x # xs) then ?g r else r)"
      proof -
        fix r assume r: "r \<in> set (answers d)"
        show "(if (if r = x then ?g x else r) \<in> set xs
               then ?g (if r = x then ?g x else r) else (if r = x then ?g x else r))
            = (if r \<in> set (x # xs) then ?g r else r)"
        proof (cases "r = x")
          case True
          then show ?thesis by (simp add: grade_answer_idem)
        next
          case False
          then show ?thesis by simp
        qed
      qed
      then show ?thesis by (simp add: a1 comp_def cong: map_cong)
    qed
    finally show ?thesis using True by simp
  qed
qed

lemma calculate_exam_result_answers_map:
  assumes "distinct (map an_id (answers d))"
  shows "answers (fst (calculate_exam_result now d a)) =
           map (\<lambda>r. if an_attempt r = at_id a then grade_answer a r else r) (answers d)"
proof -
  have dx: "distinct (answers d)"
    using assms by (simp add: distinct_map)
  have "answers (grade_loop a (attempt_answers d (at_id a)) d) =
          map (\<lambda>r. if r \<in> set (attempt_answers d (at_id a)) then grade_answer a r else r)
            (answers d)"
    using assms dx by (intro grade_loop_answers) (auto simp: attempt_answers_def)
  also have "\<dots> = map (\<lambda>r. if an_attempt r = at_id a then grade_answer a r else r) (answers d)"
    by (intro map_cong) (auto simp: attempt_answers_def)
  finally show ?thesis by (simp add: calculate_exam_result_answers)
qed


section \<open>The upsert of the result\<close>

lemma update_or_create_result_key [simp]:
  "r_attempt (snd (update_or_create_result new d)) = r_attempt new"
  by (simp add: update_or_create_result_snd)

lemma update_or_create_result_rows:
  "results (fst (update_or_create_result new d)) =
     upsert_rows (snd (update_or_create_result new d)) (results d)"
  by (simp add: update_or_create_result_def upsert_rows_def Let_def split: option.splits)

lemma update_or_create_result_frame [simp]:
  "attempts (fst (update_or_create_result new d)) = attempts d"
  "answers (fst (update_or_create_result new d)) = answers d"
  "exams (fst (update_or_create_result new d)) = exams d"
  "questions (fst (update_or_create_result new d)) = questions d"
  "extensions (fst (update_or_create_result new d)) = extensions d"
  by (simp_all add: update_or_create_result_def Let_def split: option.splits)

lemma calculate_exam_result_frame [simp]:
  "exams (fst (calculate_exam_result now d a)) = exams d"
  "questions (fst (calculate_exam_result now d a)) = questions d"
  "extensions (fst (calculate_exam_result now d a)) = extensions d"
  by (simp_all add: calculate_exam_result_def Let_def split_beta)

lemma calculate_exam_result_key [simp]:
  "r_attempt (snd (snd (calculate_exam_result now d a))) = at_id a"
  "at_id (fst (snd (calculate_exam_result now d a))) = at_id a"
  by (simp_all add: calculate_exam_result_res calculate_exam_result_attempt Let_def)

lemma calculate_exam_result_rows:
  "results (fst (calculate_exam_result now d a)) =
     upsert_rows (snd (snd (calculate_exam_result now d a))) (results d)"
  by (simp add: calculate_exam_result_def Let_def split_beta update_or_create_result_rows)

lemma find_None_filter: "(find P xs = None) = (filter P xs = [])"
  by (induction xs) auto

lemma upsert_rows_count:
  "length (filter (\<lambda>r. r_attempt r = r_attempt u) (upsert_rows u rs)) =
     max 1 (length (filter (\<lambda>r. r_attempt r = r_attempt u) rs))"
proof (cases "find (\<lambda>r. r_attempt r = r_attempt u) rs = None")
  case True
  then show ?thesis by (simp add: upsert_rows_def find_None_filter)
next
  case False
  have "filter (\<lambda>r. r_attempt r = r_attempt u)
          (map (\<lambda>r. if r_attempt r = r_attempt u then u else r) rs)
        = map (\<lambda>r. u) (filter (\<lambda>r. r_attempt r = r_attempt u) rs)"
    by (induction rs) auto
  moreover have "filter (\<lambda>r. r_attempt r = r_attempt u) rs \<noteq> []"
    using False by (simp add: find_None_filter)
  then have "1 \<le> length (filter (\<lambda>r. r_attempt r = r_attempt u) rs)"
    by (cases "filter (\<lambda>r. r_attempt r = r_attempt u) rs") auto
  ultimately show ?thesis using False by (simp add: upsert_rows_def)
qed

lemma filter_replace_other:
  "i \<noteq> r_attempt u \<Longrightarrow> i \<noteq> k \<Longrightarrow>
     filter (\<lambda>r. r_attempt r = i) (map (\<lambda>r. if r_attempt r = k then u else r) rs) =
     filter (\<lambda>r. r_attempt r = i) rs"
  by (induction rs) auto

lemma upsert_rows_other:
  "i \<noteq> r_attempt u \<Longrightarrow>
     filter (\<lambda>r. r_attempt r = i) (upsert_rows u rs) = filter (\<lambda>r. r_attempt r = i) rs"
  by (simp add: upsert_rows_def filter_replace_other)

lemma find_replace_same:
  "find (\<lambda>r. r_attempt r = r_attempt u)
     (map (\<lambda>r. if r_attempt r = r_attempt u then u else r) rs) =
   (if find (\<lambda>r. r_attempt r = r_attempt u) rs = None then None else Some u)"
  by (induction rs) auto

lemma find_upsert_rows:
  "find (\<lambda>r. r_attempt r = r_attempt u) (upsert_rows u rs) = Some u"
  by (simp add: upsert_rows_def find_replace_same)


lemma upsert_rows_idem:
  "upsert_rows u (upsert_rows u rs) = upsert_rows u rs"
proof -
  let ?R = "\<lambda>r. if r_attempt r = r_attempt u then u else r"
  have outer: "upsert_rows u (upsert_rows u rs) = map ?R (upsert_rows u rs)"
    by (simp add: upsert_rows_def[of u "upsert_rows u rs"] find_upsert_rows)
  show ?thesis
  proof (cases "find (\<lambda>r. r_attempt r = r_attempt u) rs = None")
    case True
    then have "\<And>r. r \<in> set rs \<Longrightarrow> r_attempt r \<noteq> r_attempt u"
      by (auto simp: find_None_iff)
    then have m: "map ?R rs = rs"
      by (intro map_idI) auto
    have inner: "upsert_rows u rs = u # rs"
      using True by (simp add: upsert_rows_def)
    show ?thesis using outer m by (simp add: inner)
  next
    case False
    have inner: "upsert_rows u rs = map ?R rs"
      using False by (simp add: upsert_rows_def)
    have mm: "map ?R (map ?R rs) = map ?R rs"
      by (induction rs) auto
    show ?thesis using outer mm by (simp add: inner)
  qed
qed

lemma save_attempt_idem:
  "attempts (save_attempt a (save_attempt a d)) = attempts (save_attempt a d)"
proof (cases "list_ex (\<lambda>r. at_id r = at_id a) (attempts d)")
  case True
  then have "list_ex (\<lambda>r. at_id r = at_id a)
               (map (\<lambda>r. if at_id r = at_id a then a else r) (attempts d))"
    by (auto simp: list_ex_iff)
  moreover have "map ((\<lambda>r. if at_id r = at_id a then a else r) \<circ>
                      (\<lambda>r. if at_id r = at_id a then a else r)) (attempts d)
                 = map (\<lambda>r. if at_id r = at_id a then a else r) (attempts d)"
    by (intro map_cong) auto
  ultimately show ?thesis using True by (simp add: save_attempt_def)
next
  case False
  then have "map (\<lambda>r. if at_id r = at_id a then a else r) (attempts d) = attempts d"
    by (intro map_idI) (auto simp: list_ex_iff)
  with False show ?thesis by (simp add: save_attempt_def)
qed

lemma filter_map_grade:
  "filter (\<lambda>x. an_attempt x = i)
     (map (\<lambda>r. if an_attempt r = k then grade_answer a r else r) xs) =
   (if i = k then map (grade_answer a) (filter (\<lambda>x. an_attempt x = i) xs)
    else filter (\<lambda>x. an_attempt x = i) xs)"
  by (induction xs) auto

lemma attempt_answers_calculate:
  assumes "distinct (map an_id (answers d))"
  shows "attempt_answers (fst (calculate_exam_result now d a)) i =
           (if i = at_id a then map (grade_answer a) (attempt_answers d i)
            else attempt_answers d i)"
  by (simp add: attempt_answers_def calculate_exam_result_answers_map[OF assms]
        filter_map_grade)

lemma map_grade_twice:
  "map (grade_answer b) (map (grade_answer a) xs) = map (grade_answer a) xs"
  by (simp add: grade_answer_idem)

lemma calculate_exam_result_twice_res:
  assumes "distinct (map an_id (answers d))"
  shows "snd (snd (calculate_exam_result now2 (fst (calculate_exam_result now1 d a))
                     (fst (snd (calculate_exam_result now1 d a))))) =
         (snd (snd (calculate_exam_result now1 d a)))
           \<lparr>r_submitted_at := (case at_submit_time a of Some t \<Rightarrow> t | None \<Rightarrow> now2)\<rparr>"
proof -
  let ?d1 = "fst (calculate_exam_result now1 d a)"
  let ?a1 = "fst (snd (calculate_exam_result now1 d a))"
  let ?r1 = "snd (snd (calculate_exam_result now1 d a))"
  have g: "map (grade_answer ?a1) (attempt_answers ?d1 (at_id a)) =
           map (grade_answer a) (attempt_answers d (at_id a))"
    by (simp add: attempt_answers_calculate[OF assms] grade_answer_idem)
  have p: "find (\<lambda>r. r_attempt r = at_id a) (results ?d1) = Some ?r1"
    using find_upsert_rows[of ?r1 "results d"]
    by (simp add: calculate_exam_result_rows)
  have f: "filter (\<lambda>x. an_attempt x = at_id a) (answers ?d1) = attempt_answers ?d1 (at_id a)"
    by (simp add: attempt_answers_def)
  have s: "at_submit_time ?a1 = at_submit_time a" "at_exam ?a1 = at_exam a"
    "at_student ?a1 = at_student a"
    by (simp_all add: calculate_exam_result_attempt)
  have "snd (snd (calculate_exam_result now2 ?d1 ?a1)) =
        (let graded = map (grade_answer a) (attempt_answers d (at_id a));
             total_marks = e_total_marks (at_exam a);
             obtained_marks = sum_scores graded;
             grading = compute_grading_status graded
         in \<lparr>r_attempt = at_id a,
             r_exam = e_id (at_exam a),
             r_student = at_student a,
             r_total_marks = total_marks,
             r_obtained_marks = obtained_marks,
             r_percentage = (if total_marks > 0 then obtained_marks / total_marks * 100 else 0),
             r_status =
               (if grading = FullyGraded
                then (if obtained_marks \<ge> e_passing_marks (at_exam a) then Pass else Fail)
                else ResultPending),
             r_grading_status = grading,
             r_is_published = r_is_published ?r1,
             r_submitted_at = (case at_submit_time a of Some t \<Rightarrow> t | None \<Rightarrow> now2)\<rparr>)"
    unfolding calculate_exam_result_res[of now2 ?d1 ?a1] calculate_exam_result_key f g p s
    by simp
  also have "\<dots> = ?r1\<lparr>r_submitted_at := (case at_submit_time a of Some t \<Rightarrow> t | None \<Rightarrow> now2)\<rparr>"
    by (simp add: calculate_exam_result_res[of now1 d a] Let_def attempt_answers_def)
  finally show ?thesis .
qed


section \<open>Calling the result computation twice\<close>

lemma calculate_exam_result_twice_attempt:
  assumes "distinct (map an_id (answers d))"
  shows "fst (snd (calculate_exam_result now2 (fst (calculate_exam_result now1 d a))
                     (fst (snd (calculate_exam_result now1 d a))))) =
         fst (snd (calculate_exam_result now1 d a))"
proof -
  let ?d1 = "fst (calculate_exam_result now1 d a)"
  let ?a1 = "fst (snd (calculate_exam_result now1 d a))"
  have g: "map (grade_answer ?a1) (attempt_answers ?d1 (at_id a)) =
           map (grade_answer a) (attempt_answers d (at_id a))"
    by (simp add: attempt_answers_calculate[OF assms] grade_answer_idem)
  have "fst (snd (calculate_exam_result now2 ?d1 ?a1)) =
        ?a1\<lparr>at_total_score := Some (e_total_marks (at_exam ?a1)),
            at_obtained_score :=
              Some (sum_scores (map (grade_answer ?a1) (attempt_answers ?d1 (at_id ?a1))))\<rparr>"
    by (rule calculate_exam_result_attempt)
  also have "\<dots> = ?a1"
    unfolding calculate_exam_result_key g
    by (simp add: calculate_exam_result_attempt)
  finally show ?thesis .
qed

lemma save_attempt_attempts_cong:
  "attempts d' = attempts d \<Longrightarrow> attempts (save_attempt a d') = attempts (save_attempt a d)"
  by (simp add: save_attempt_def)

lemma calculate_exam_result_twice_db:
  assumes dist: "distinct (map an_id (answers d))"
    and same: "at_submit_time a \<noteq> None \<or> now2 = now1"
  shows "fst (calculate_exam_result now2 (fst (calculate_exam_result now1 d a))
                (fst (snd (calculate_exam_result now1 d a)))) =
         fst (calculate_exam_result now1 d a)"
proof -
  let ?d1 = "fst (calculate_exam_result now1 d a)"
  let ?a1 = "fst (snd (calculate_exam_result now1 d a))"
  let ?r1 = "snd (snd (calculate_exam_result now1 d a))"
  let ?d2 = "fst (calculate_exam_result now2 ?d1 ?a1)"
  have ids: "map an_id (answers ?d1) = map an_id (answers d)"
    by (simp add: calculate_exam_result_answers_map[OF dist] comp_def if_distrib
          cong: if_cong)
  have dist1: "distinct (map an_id (answers ?d1))"
    using dist ids by simp
  have r2: "snd (snd (calculate_exam_result now2 ?d1 ?a1)) = ?r1"
  proof -
    have "(case at_submit_time a of Some t \<Rightarrow> t | None \<Rightarrow> now2) = r_submitted_at ?r1"
      using same by (auto simp: calculate_exam_result_res Let_def split: option.splits)
    then show ?thesis
      by (simp add: calculate_exam_result_twice_res[OF dist])
  qed
  have a2: "fst (snd (calculate_exam_result now2 ?d1 ?a1)) = ?a1"
    by (rule calculate_exam_result_twice_attempt[OF dist])
  have "answers ?d2 =
          map (\<lambda>r. if an_attempt r = at_id ?a1 then grade_answer ?a1 r else r) (answers ?d1)"
    by (rule calculate_exam_result_answers_map[OF dist1])
  also have "\<dots> = answers ?d1"
    by (simp add: calculate_exam_result_answers_map[OF dist] comp_def grade_answer_idem
          if_distrib cong: if_cong)
  finally have an: "answers ?d2 = answers ?d1" .
  have at: "attempts ?d2 = attempts ?d1"
  proof -
    have "attempts ?d2 = attempts (save_attempt ?a1 ?d1)"
      using calculate_exam_result_attempts[of now2 ?d1 ?a1] by (simp only: a2)
    also have "\<dots> = attempts (save_attempt ?a1 (save_attempt ?a1 d))"
      by (rule save_attempt_attempts_cong) (rule calculate_exam_result_attempts)
    also have "\<dots> = attempts (save_attempt ?a1 d)"
      by (rule save_attempt_idem)
    also have "\<dots> = attempts ?d1"
      by (rule calculate_exam_result_attempts[symmetric])
    finally show ?thesis .
  qed
  have re: "results ?d2 = results ?d1"
    by (simp add: calculate_exam_result_rows[of now2 ?d1 ?a1] r2
          calculate_exam_result_rows[of now1 d a] upsert_rows_idem)
  show ?thesis
    by (rule db.equality) (simp_all add: an at re)
qed


lemma result_count_calculate:
  "result_count (fst (calculate_exam_result now d a)) (at_id a) =
     max 1 (result_count d (at_id a))"
  using upsert_rows_count[of "snd (snd (calculate_exam_result now d a))" "results d"]
  by (simp add: result_count_def calculate_exam_result_rows)

lemma result_count_calculate_other:
  "i \<noteq> at_id a \<Longrightarrow>
     result_count (fst (calculate_exam_result now d a)) i = result_count d i"
  by (simp add: result_count_def calculate_exam_result_rows upsert_rows_other)





section \<open>Scoring a multi-select answer\<close>

lemma explicit_tokens_empty:
  "(explicit_tokens question = {}) =
     (\<not> list_ex (\<lambda>a. py_strip (py_str a) \<noteq> []) (q_correct_answers question))"
  by (auto simp: explicit_tokens_def list_ex_iff filter_empty_conv)

text \<open>
  Claim C6, as amended. For a \<open>multiple_mcq\<close> question the correct token set is the
  normalisation of the entries of \<open>correct_answers\<close> that are not blank when the list
  has such an entry, else the tokens derived from the options flagged correct; the
  score is the full points of the question when the normalised submitted tokens are
  this set and the set is not empty, and zero otherwise.
\<close>

theorem auto_evaluate_mcq_multiple:
  assumes "q_type question = MultipleMcq"
  shows "auto_evaluate_mcq attempt question student_answer =
           (let correct =
                  (if list_ex (\<lambda>a. py_strip (py_str a) \<noteq> []) (q_correct_answers question)
                   then set (map norm_token
                               (filter (\<lambda>a. py_strip (py_str a) \<noteq> [])
                                  (q_correct_answers question)))
                   else extract_correct_tokens_from_options question)
            in if tokens_from_answer student_answer = correct \<and> correct \<noteq> {}
               then q_points question else 0)"
proof (cases "list_ex (\<lambda>a. py_strip (py_str a) \<noteq> []) (q_correct_answers question)")
  case True
  then have "explicit_tokens question \<noteq> {}"
    by (simp add: explicit_tokens_empty)
  with True assms show ?thesis
    by (auto simp: auto_evaluate_mcq_def Let_def explicit_tokens_def)
next
  case False
  then have "explicit_tokens question = {}"
    by (simp add: explicit_tokens_empty)
  with False assms show ?thesis
    by (auto simp: auto_evaluate_mcq_def Let_def)
qed

text \<open>
  The answers \<open>a\<close> and \<open>c\<close> earn the 10 points of \<open>ex_multi\<close>; the answer \<open>a\<close> alone
  earns nothing.
\<close>

theorem auto_evaluate_mcq_multiple_witness:
  "q_type ex_multi = MultipleMcq \<and>
   auto_evaluate_mcq ex_attempt ex_multi (JList [JStr ''a'', JStr ''c'']) = 10 \<and>
   auto_evaluate_mcq ex_attempt ex_multi (JList [JStr ''a'']) = 0"
proof -
  have t: "q_type ex_multi = MultipleMcq"
    by (simp add: ex_multi_def)
  have e: "list_ex (\<lambda>a. py_strip (py_str a) \<noteq> []) (q_correct_answers ex_multi)"
    by code_simp
  have c: "set (map norm_token (filter (\<lambda>a. py_strip (py_str a) \<noteq> [])
                                  (q_correct_answers ex_multi))) = {''a'', ''c''}"
    by code_simp
  have s1: "tokens_from_answer (JList [JStr ''a'', JStr ''c'']) = {''a'', ''c''}"
    by code_simp
  have s2: "tokens_from_answer (JList [JStr ''a'']) = {''a''}"
    by code_simp
  have p: "q_points ex_multi = 10"
    by (simp add: ex_multi_def)
  have ne: "{''a''} \<noteq> {''a'', ''c''}"
    by auto
  have v1: "auto_evaluate_mcq ex_attempt ex_multi (JList [JStr ''a'', JStr ''c'']) = 10"
    by (simp only: auto_evaluate_mcq_multiple[OF t] Let_def e[THEN eqTrueI] c s1 p if_True)
       simp
  have v2: "auto_evaluate_mcq ex_attempt ex_multi (JList [JStr ''a'']) = 0"
    using ne
    by (simp only: auto_evaluate_mcq_multiple[OF t] Let_def e[THEN eqTrueI] c s2 p if_True)
       simp
  from t v1 v2 show ?thesis
    by simp
qed

text \<open>
  The claim as stated fails where the list \<open>correct_answers\<close> is not empty and all its
  entries are blank: for \<open>ex_multi_blank\<close> the code falls back to the options and
  gives the 10 points to the answer that names the correct option in every way, while
  the correct set of the claim, the normalisation of the list, is empty and earns
  nothing.
\<close>

theorem auto_evaluate_mcq_multiple_counterexample:
  "auto_evaluate_mcq ex_attempt ex_multi_blank (JList [JStr ''1'', JStr ''0'', JStr ''A'']) = 10 \<and>
   spec_multiple_mcq_score ex_multi_blank (JList [JStr ''1'', JStr ''0'', JStr ''A'']) = 0"
proof -
  have t: "q_type ex_multi_blank = MultipleMcq" "q_points ex_multi_blank = 10"
    "q_correct_answers ex_multi_blank \<noteq> []"
    by (simp_all add: ex_multi_blank_def ex_multi_def)
  have e: "explicit_tokens ex_multi_blank = {}"
    by code_simp
  have o: "extract_correct_tokens_from_options ex_multi_blank = {''0'', ''1'', ''a''}"
    by code_simp
  have s: "tokens_from_answer (JList [JStr ''1'', JStr ''0'', JStr ''A'']) = {''0'', ''1'', ''a''}"
    by code_simp
  have ne: "{''0'', ''1'', ''a''} \<noteq> ({} :: string set)"
    by simp
  show ?thesis
    using t e o s ne
    by (simp add: auto_evaluate_mcq_def spec_multiple_mcq_score_def
          spec_multiple_mcq_correct_def Let_def)
qed

section \<open>The deadline of an attempt\<close>

lemma get_attempt_remaining_time_max:
  "get_attempt_remaining_time now attempt =
     max 0 ((get_attempt_end_time attempt - now) div 1000000)"
  by (auto simp: get_attempt_remaining_time_def Let_def max_def
        pos_imp_zdiv_neg_iff pos_imp_zdiv_nonneg_iff)

lemma get_attempt_end_time_no_extension:
  "get_attempt_end_time attempt = spec_resolveDeadline (at_exam attempt) None"
  by (simp add: get_attempt_end_time_def spec_resolveDeadline_def)

text \<open>
  Claim C1. The deadline of the code is the end time of the exam whether or not an
  extension is stored. Student 3 has an extension of 20 minutes in an exam that ends at
  3600 seconds: the specification resolves the deadline to 4800 seconds, and
  \<open>get_attempt_end_time\<close> gives 3600 seconds; started at 2400 seconds, the attempt is
  given 1200 seconds, where the specification gives 2400.
\<close>

theorem get_attempt_end_time_extension:
  "active_extension ex_db_extended 1 3 = Some ex_extension \<and>
   spec_resolveDeadline ex_exam (active_extension ex_db_extended 1 3) = 4800000000 \<and>
   get_attempt_end_time ex_in_progress = 3600000000 \<and>
   snd (student_start_exam 2400000000 ex_student 1 ex_db_extended) = StartCreated 1 1200 \<and>
   spec_remainingSeconds ex_exam (active_extension ex_db_extended 1 3) 2400000000 = 2400"
  by code_simp


section \<open>Runs that stop early, and what a run leaves alone\<close>

lemma grade_loop_ids:
  assumes "distinct (map an_id (answers d))" and "set xs \<subseteq> set (answers d)"
    and "distinct xs"
  shows "map an_id (answers (grade_loop a xs d)) = map an_id (answers d)"
  by (simp add: grade_loop_answers[OF assms] comp_def if_distrib cong: if_cong)

lemma filter_map_grade_set:
  assumes "\<And>r. r \<in> S \<Longrightarrow> an_attempt r = k" and "i \<noteq> k"
  shows "filter (\<lambda>r. an_attempt r = i)
           (map (\<lambda>r. if r \<in> S then grade_answer a r else r) ys)
         = filter (\<lambda>r. an_attempt r = i) ys"
  using assms by (induction ys) auto

lemma attempt_answers_grade_loop_other:
  assumes "distinct (map an_id (answers d))" and "set xs \<subseteq> set (attempt_answers d k)"
    and "distinct xs" and "i \<noteq> k"
  shows "attempt_answers (grade_loop a xs d) i = attempt_answers d i"
proof -
  have sub: "set xs \<subseteq> set (answers d)"
    using assms(2) by (auto simp: attempt_answers_def)
  have "filter (\<lambda>r. an_attempt r = i)
          (map (\<lambda>r. if r \<in> set xs then grade_answer a r else r) (answers d))
        = filter (\<lambda>r. an_attempt r = i) (answers d)"
    using assms(2,4) by (intro filter_map_grade_set[of "set xs" k]) (auto simp: attempt_answers_def)
  then show ?thesis
    by (simp add: attempt_answers_def grade_loop_answers[OF assms(1) sub assms(3)])
qed


lemma interrupted_frame [simp]:
  "results (interrupted_calculate_exam_result f d a) = results d"
  "exams (interrupted_calculate_exam_result f d a) = exams d"
  "questions (interrupted_calculate_exam_result f d a) = questions d"
  "extensions (interrupted_calculate_exam_result f d a) = extensions d"
  by (simp_all add: interrupted_calculate_exam_result_def Let_def split: fault.splits)

lemma result_row_interrupted [simp]:
  "result_row (interrupted_calculate_exam_result f d a) i = result_row d i"
  by (simp add: result_row_def)

lemma attempt_core_scores [simp]:
  "attempt_core (a\<lparr>at_total_score := t, at_obtained_score := s\<rparr>) = attempt_core a"
  by (simp add: attempt_core_def)

lemma attempt_core_calculate [simp]:
  "attempt_core (fst (snd (calculate_exam_result now d a))) = attempt_core a"
  by (simp add: calculate_exam_result_attempt)

lemma core_row_save_attempt:
  "core_row (save_attempt a d) i = (if i = at_id a then Some (attempt_core a) else core_row d i)"
  by (simp add: core_row_def attempt_row_save_attempt)

lemma core_row_calculate:
  "core_row (fst (calculate_exam_result now d a)) i =
     (if i = at_id a then Some (attempt_core a) else core_row d i)"
  by (simp add: core_row_def attempt_row_calculate)

lemma attempt_row_grade_loop [simp]:
  "attempt_row (grade_loop a xs d) i = attempt_row d i"
  by (simp add: attempt_row_def)

lemma core_row_interrupted:
  "core_row (interrupted_calculate_exam_result f d a) i =
     (if i = at_id a \<and> f = FaultUpsert then Some (attempt_core a) else core_row d i)"
  by (cases f)
     (simp_all add: interrupted_calculate_exam_result_def Let_def core_row_def
        attempt_row_save_attempt)

lemma interrupted_ids:
  assumes "distinct (map an_id (answers d))"
  shows "map an_id (answers (interrupted_calculate_exam_result f d a)) = map an_id (answers d)"
proof -
  have dx: "distinct (answers d)"
    using assms by (simp add: distinct_map)
  have sub: "set (take k (filter (\<lambda>r. an_attempt r = at_id a) (answers d))) \<subseteq> set (answers d)"
    for k
    using set_take_subset[of k "filter (\<lambda>r. an_attempt r = at_id a) (answers d)"] by auto
  show ?thesis
    using assms dx sub
    by (cases f)
       (simp_all add: interrupted_calculate_exam_result_def Let_def grade_loop_ids)
qed

lemma attempt_answers_interrupted_other:
  assumes "distinct (map an_id (answers d))" and "i \<noteq> at_id a"
  shows "attempt_answers (interrupted_calculate_exam_result f d a) i = attempt_answers d i"
proof -
  have dx: "distinct (attempt_answers d (at_id a))"
    using assms(1) by (simp add: distinct_map attempt_answers_def)
  have sub: "set (take k (attempt_answers d (at_id a))) \<subseteq> set (attempt_answers d (at_id a))"
    for k
    by (rule set_take_subset)
  have g: "attempt_answers (grade_loop a (take k (attempt_answers d (at_id a))) d) i =
           attempt_answers d i" for k
    using assms dx sub[of k]
    by (intro attempt_answers_grade_loop_other[of d _ "at_id a"]) auto
  have g': "attempt_answers (grade_loop a (attempt_answers d (at_id a)) d) i =
           attempt_answers d i"
    using g[of "length (attempt_answers d (at_id a))"] by simp
  have sa: "attempt_answers (save_attempt b e) i = attempt_answers e i" for b e
    by (simp add: attempt_answers_def)
  show ?thesis
    using g g'
    by (cases f)
       (simp_all add: interrupted_calculate_exam_result_def Let_def sa
          attempt_answers_def[symmetric])
qed

lemma calculate_ids:
  assumes "distinct (map an_id (answers d))"
  shows "map an_id (answers (fst (calculate_exam_result now d a))) = map an_id (answers d)"
  by (simp add: calculate_exam_result_answers_map[OF assms] comp_def if_distrib cong: if_cong)

lemma calculate_exam_result_res_cong:
  assumes "attempt_answers d (at_id a) = attempt_answers d' (at_id a)"
    and "result_row d (at_id a) = result_row d' (at_id a)"
  shows "snd (snd (calculate_exam_result now d a)) = snd (snd (calculate_exam_result now d' a))"
  using assms
  by (simp add: calculate_exam_result_res Let_def attempt_answers_def result_row_def)

lemma attempt_answers_save_attempt [simp]:
  "attempt_answers (save_attempt b d) i = attempt_answers d i"
  by (simp add: attempt_answers_def)

lemma result_row_save_attempt [simp]:
  "result_row (save_attempt b d) i = result_row d i"
  by (simp add: result_row_def)


section \<open>The loop of the sweep\<close>

lemma finalise_key [simp]:
  "at_id (finalise a) = at_id a"
  "at_status (finalise a) = AutoSubmitted"
  "at_submit_time (finalise a) = Some (get_attempt_end_time a)"
  "at_exam (finalise a) = at_exam a"
  "at_student (finalise a) = at_student a"
  by (simp_all add: finalise_def)

lemma handle_loop_Cons:
  "handle_loop faults now (x # xs) d c =
     (if now > get_attempt_end_time x
      then handle_loop faults now xs (handle_step faults now x d)
             (if faults (at_id x) = None then c + 1 else c)
      else handle_loop faults now xs d c)"
  by (simp add: handle_step_def finalise_def Let_def split: option.splits)

declare handle_loop.simps(2) [simp del]

lemma find_key_None:
  "at_id x \<notin> set (map at_id xs) \<Longrightarrow> find (\<lambda>y. at_id y = at_id x) xs = None"
  by (induction xs) auto

lemma core_row_handle_step:
  "core_row (handle_step faults now x d) i =
     (if i = at_id x then Some (attempt_core (finalise x)) else core_row d i)"
  by (simp add: handle_step_def core_row_calculate core_row_interrupted core_row_save_attempt
        split: option.splits)

lemma handle_step_ids:
  assumes "distinct (map an_id (answers d))"
  shows "map an_id (answers (handle_step faults now x d)) = map an_id (answers d)"
  using assms
  by (simp add: handle_step_def calculate_ids interrupted_ids split: option.splits)

lemma attempt_answers_handle_step_other:
  assumes "distinct (map an_id (answers d))" and "i \<noteq> at_id x"
  shows "attempt_answers (handle_step faults now x d) i = attempt_answers d i"
  using assms
  by (simp add: handle_step_def attempt_answers_calculate attempt_answers_interrupted_other
        split: option.splits)

lemma result_row_handle_step:
  "result_row (handle_step faults now x d) i =
     (if i = at_id x \<and> faults (at_id x) = None
      then Some (snd (snd (calculate_exam_result now d (finalise x))))
      else result_row d i)"
proof -
  have "snd (snd (calculate_exam_result now (save_attempt (finalise x) d) (finalise x))) =
        snd (snd (calculate_exam_result now d (finalise x)))"
    by (rule calculate_exam_result_res_cong) simp_all
  then show ?thesis
    by (simp add: handle_step_def result_row_calculate split: option.splits)
qed

lemma handle_loop_core:
  assumes "distinct (map at_id xs)"
  shows "core_row (fst (handle_loop faults now xs d c)) i =
           (case find (\<lambda>x. at_id x = i) xs of
              None \<Rightarrow> core_row d i
            | Some x \<Rightarrow> if now > get_attempt_end_time x
                        then Some (attempt_core (finalise x)) else core_row d i)"
  using assms
proof (induction xs arbitrary: d c)
  case Nil
  then show ?case by simp
next
  case (Cons x xs)
  have nf: "find (\<lambda>y. at_id y = at_id x) xs = None"
    using Cons.prems by (intro find_key_None) simp
  have dx: "distinct (map at_id xs)"
    using Cons.prems by simp
  show ?case
  proof (cases "i = at_id x")
    case True
    show ?thesis
      using Cons.IH[OF dx, of "handle_step faults now x d"] Cons.IH[OF dx, of d c] nf
      by (simp add: True handle_loop_Cons core_row_handle_step)
  next
    case False
    then have f: "find (\<lambda>y. at_id y = i) (x # xs) = find (\<lambda>y. at_id y = i) xs"
      by auto
    show ?thesis
      unfolding f
      using Cons.IH[OF dx, of "handle_step faults now x d"] Cons.IH[OF dx, of d c] False
      by (simp add: handle_loop_Cons core_row_handle_step split: option.splits)
  qed
qed

lemma handle_loop_ids:
  assumes "distinct (map an_id (answers d))"
  shows "map an_id (answers (fst (handle_loop faults now xs d c))) = map an_id (answers d)"
  using assms
proof (induction xs arbitrary: d c)
  case Nil
  then show ?case by simp
next
  case (Cons x xs)
  have "distinct (map an_id (answers (handle_step faults now x d)))"
    using Cons.prems by (simp add: handle_step_ids)
  then show ?case
    using Cons.IH[of "handle_step faults now x d"] Cons.IH[of d c] Cons.prems
    by (simp add: handle_loop_Cons handle_step_ids)
qed

lemma handle_loop_result:
  assumes "distinct (map at_id xs)" and "distinct (map an_id (answers d))"
  shows "result_row (fst (handle_loop faults now xs d c)) i =
           (case find (\<lambda>x. at_id x = i) xs of
              None \<Rightarrow> result_row d i
            | Some x \<Rightarrow> if now > get_attempt_end_time x \<and> faults i = None
                        then Some (snd (snd (calculate_exam_result now d (finalise x))))
                        else result_row d i)"
  using assms
proof (induction xs arbitrary: d c)
  case Nil
  then show ?case by simp
next
  case (Cons x xs)
  have nf: "find (\<lambda>y. at_id y = at_id x) xs = None"
    using Cons.prems by (intro find_key_None) simp
  have dx: "distinct (map at_id xs)"
    using Cons.prems by simp
  let ?d1 = "handle_step faults now x d"
  have d1: "distinct (map an_id (answers ?d1))"
    using Cons.prems by (simp add: handle_step_ids)
  show ?case
  proof (cases "i = at_id x")
    case True
    show ?thesis
      using Cons.IH[OF dx d1] Cons.IH[OF dx Cons.prems(2), of c] nf
      by (simp add: True handle_loop_Cons result_row_handle_step)
  next
    case False
    then have f: "find (\<lambda>y. at_id y = i) (x # xs) = find (\<lambda>y. at_id y = i) xs"
      by auto
    have cong: "snd (snd (calculate_exam_result now ?d1 (finalise y))) =
                snd (snd (calculate_exam_result now d (finalise y)))"
      if "at_id y = i" for y
      using that False Cons.prems(2)
      by (intro calculate_exam_result_res_cong)
         (simp_all add: attempt_answers_handle_step_other result_row_handle_step)
    have k: "at_id y = i" if "find (\<lambda>y. at_id y = i) xs = Some y" for y
      using that by (auto simp: find_Some_iff)
    show ?thesis
    proof (cases "find (\<lambda>y. at_id y = i) xs")
      case None
      then show ?thesis
        unfolding f
        using Cons.IH[OF dx d1] Cons.IH[OF dx Cons.prems(2), of c] False
        by (simp add: handle_loop_Cons result_row_handle_step)
    next
      case (Some y)
      then show ?thesis
        unfolding f
        using Cons.IH[OF dx d1] Cons.IH[OF dx Cons.prems(2), of c] False cong[OF k[OF Some]]
        by (simp add: handle_loop_Cons result_row_handle_step)
    qed
  qed
qed


section \<open>One run of the sweep\<close>

lemma find_filter_key:
  assumes "distinct (map at_id xs)"
  shows "find (\<lambda>x. at_id x = i) (filter P xs) =
           (case find (\<lambda>x. at_id x = i) xs of
              None \<Rightarrow> None
            | Some a \<Rightarrow> if P a then Some a else None)"
  using assms
proof (induction xs)
  case Nil
  then show ?case by simp
next
  case (Cons x xs)
  have "find (\<lambda>y. at_id y = at_id x) (filter P xs) = None"
    using Cons.prems by (intro find_key_None) auto
  with Cons show ?case by auto
qed

lemma attempt_row_member:
  assumes "distinct (map at_id (attempts d))" and "a \<in> set (attempts d)"
  shows "attempt_row d (at_id a) = Some a"
proof -
  have "find (\<lambda>x. at_id x = at_id a) xs = Some a"
    if "distinct (map at_id xs)" "a \<in> set xs" for xs
    using that by (induction xs) (auto simp: image_iff)
  then show ?thesis using assms by (simp add: attempt_row_def)
qed

lemma attempt_row_SomeD:
  "attempt_row d i = Some a \<Longrightarrow> a \<in> set (attempts d) \<and> at_id a = i"
  by (auto simp: attempt_row_def find_Some_iff)

lemma handle_core:
  assumes "distinct (map at_id (attempts d))"
  shows "core_row (fst (handle faults now d)) i =
           (case attempt_row d i of
              None \<Rightarrow> None
            | Some a \<Rightarrow>
                Some (attempt_core
                        (if at_status a = InProgress \<and> now > get_attempt_end_time a
                         then finalise a else a)))"
proof -
  have dx: "distinct (map at_id (filter (\<lambda>a. at_status a = InProgress) (attempts d)))"
    using assms by (rule distinct_map_filter)
  show ?thesis
    unfolding handle_def handle_loop_core[OF dx] find_filter_key[OF assms]
    by (auto simp: core_row_def attempt_row_def split: option.splits)
qed

lemma handle_result:
  assumes "distinct (map at_id (attempts d))" and "distinct (map an_id (answers d))"
  shows "result_row (fst (handle faults now d)) i =
           (case attempt_row d i of
              None \<Rightarrow> result_row d i
            | Some a \<Rightarrow>
                if at_status a = InProgress \<and> now > get_attempt_end_time a \<and> faults i = None
                then Some (snd (snd (calculate_exam_result now d (finalise a))))
                else result_row d i)"
proof -
  have dx: "distinct (map at_id (filter (\<lambda>a. at_status a = InProgress) (attempts d)))"
    using assms(1) by (rule distinct_map_filter)
  show ?thesis
    unfolding handle_def handle_loop_result[OF dx assms(2)] find_filter_key[OF assms(1)]
    by (auto simp: attempt_row_def split: option.splits)
qed

lemma save_attempt_present_ids:
  "at_id a \<in> set (map at_id (attempts d)) \<Longrightarrow>
     map at_id (attempts (save_attempt a d)) = map at_id (attempts d)"
  by (auto simp: save_attempt_ids list_ex_iff)

lemma calculate_attempt_ids:
  "at_id a \<in> set (map at_id (attempts d)) \<Longrightarrow>
     map at_id (attempts (fst (calculate_exam_result now d a))) = map at_id (attempts d)"
  using save_attempt_present_ids[of "fst (snd (calculate_exam_result now d a))" d]
  by (simp add: calculate_exam_result_attempts)

lemma interrupted_attempt_ids:
  "at_id a \<in> set (map at_id (attempts d)) \<Longrightarrow>
     map at_id (attempts (interrupted_calculate_exam_result f d a)) = map at_id (attempts d)"
  using save_attempt_present_ids[of "a\<lparr>at_total_score := t, at_obtained_score := s\<rparr>" "grade_loop a xs d" for t s xs]
  by (cases f) (simp_all add: interrupted_calculate_exam_result_def Let_def)

lemma handle_step_attempt_ids:
  assumes "at_id x \<in> set (map at_id (attempts d))"
  shows "map at_id (attempts (handle_step faults now x d)) = map at_id (attempts d)"
proof -
  have 1: "map at_id (attempts (save_attempt (finalise x) d)) = map at_id (attempts d)"
    using assms by (intro save_attempt_present_ids) simp
  then have 2: "at_id (finalise x) \<in> set (map at_id (attempts (save_attempt (finalise x) d)))"
    using assms by simp
  show ?thesis
    using calculate_attempt_ids[OF 2] interrupted_attempt_ids[OF 2] 1
    by (simp add: handle_step_def split: option.splits)
qed

lemma handle_loop_attempt_ids:
  assumes "set (map at_id xs) \<subseteq> set (map at_id (attempts d))"
  shows "map at_id (attempts (fst (handle_loop faults now xs d c))) = map at_id (attempts d)"
  using assms
proof (induction xs arbitrary: d c)
  case Nil
  then show ?case by simp
next
  case (Cons x xs)
  have 1: "map at_id (attempts (handle_step faults now x d)) = map at_id (attempts d)"
    using Cons.prems by (intro handle_step_attempt_ids) simp
  have 2: "set (map at_id xs) \<subseteq> set (map at_id (attempts (handle_step faults now x d)))"
    using Cons.prems 1 by simp
  have 3: "set (map at_id xs) \<subseteq> set (map at_id (attempts d))"
    using Cons.prems by simp
  show ?case
    using Cons.IH[OF 2] Cons.IH[OF 3, of c] 1
    by (simp add: handle_loop_Cons)
qed

lemma handle_attempt_ids:
  "map at_id (attempts (fst (handle faults now d))) = map at_id (attempts d)"
  unfolding handle_def by (rule handle_loop_attempt_ids) auto

lemma handle_answer_ids:
  "distinct (map an_id (answers d)) \<Longrightarrow>
     map an_id (answers (fst (handle faults now d))) = map an_id (answers d)"
  unfolding handle_def by (rule handle_loop_ids)


section \<open>Failures in the sweep\<close>

lemma core_row_status:
  "core_row d i = Some (attempt_core b) \<Longrightarrow>
     attempt_status_of d i = Some (at_status b) \<and> submit_time_of d i = Some (at_submit_time b)"
  by (auto simp: core_row_def attempt_status_of_def submit_time_of_def attempt_core_def)

lemma core_row_eq_status:
  "core_row d' i = core_row d i \<Longrightarrow>
     attempt_status_of d' i = attempt_status_of d i \<and> submit_time_of d' i = submit_time_of d i"
  by (cases "attempt_row d i"; cases "attempt_row d' i")
     (auto simp: core_row_def attempt_status_of_def submit_time_of_def attempt_core_def)

lemma handle_wf:
  assumes "wf_db d"
  shows "distinct (map at_id (attempts (fst (handle faults now d))))"
    and "distinct (map an_id (answers (fst (handle faults now d))))"
  using assms by (simp_all add: wf_db_def handle_attempt_ids handle_answer_ids)





section \<open>The sweep without failures\<close>

declare auto_submit_loop.simps(2) [simp del]

lemma auto_submit_loop_Cons:
  "auto_submit_loop faults now (x # xs) d c =
     (if now > get_attempt_end_time x
      then (case faults (at_id x) of
              Some f \<Rightarrow> (handle_step faults now x d, Inl StorageError)
            | None \<Rightarrow> auto_submit_loop faults now xs (handle_step faults now x d) (c + 1))
      else auto_submit_loop faults now xs d c)"
  by (simp add: auto_submit_loop.simps(2) handle_step_def finalise_def Let_def
        split: option.splits)

lemma auto_submit_loop_no_faults:
  "auto_submit_loop no_faults now xs d c =
     (fst (handle_loop no_faults now xs d c), Inr (snd (handle_loop no_faults now xs d c)))"
  by (induction xs arbitrary: d c)
     (simp_all add: auto_submit_loop_Cons handle_loop_Cons no_faults_def)

lemma auto_submit_expired_exams_no_faults:
  "auto_submit_expired_exams no_faults now d =
     (fst (handle no_faults now d), Inr (snd (handle no_faults now d)))"
  by (simp add: auto_submit_expired_exams_def handle_def auto_submit_loop_no_faults)

text \<open>
  What one run of either sweep does when nothing raises, relative to the deadline of
  the code, \<open>get_attempt_end_time\<close>: an attempt in progress whose deadline has passed
  is stored as \<open>auto_submitted\<close> with the deadline as submit time and its \<open>Result\<close> is
  computed; every other attempt keeps its row, up to the scores, and its \<open>Result\<close>.
\<close>

lemma sweep_finalises_expired:
  assumes "wf_db d" and "a \<in> set (attempts d)"
    and "d' = fst (handle no_faults now d) \<or> d' = fst (auto_submit_expired_exams no_faults now d)"
  shows "(at_status a = InProgress \<and> now > get_attempt_end_time a \<longrightarrow>
            attempt_status_of d' (at_id a) = Some AutoSubmitted \<and>
            submit_time_of d' (at_id a) = Some (Some (get_attempt_end_time a)) \<and>
            result_row d' (at_id a)
              = Some (snd (snd (calculate_exam_result now d (finalise a))))) \<and>
         (\<not> (at_status a = InProgress \<and> now > get_attempt_end_time a) \<longrightarrow>
            core_row d' (at_id a) = core_row d (at_id a) \<and>
            result_row d' (at_id a) = result_row d (at_id a))"
proof -
  have d': "d' = fst (handle no_faults now d)"
    using assms(3) by (auto simp: auto_submit_expired_exams_no_faults)
  have da: "distinct (map at_id (attempts d))" and dn: "distinct (map an_id (answers d))"
    using assms(1) by (simp_all add: wf_db_def)
  have row: "attempt_row d (at_id a) = Some a"
    using da assms(2) by (rule attempt_row_member)
  have c: "core_row d' (at_id a) =
             Some (attempt_core (if at_status a = InProgress \<and> now > get_attempt_end_time a
                                 then finalise a else a))"
    by (simp add: d' handle_core[OF da] row)
  have r: "result_row d' (at_id a) =
             (if at_status a = InProgress \<and> now > get_attempt_end_time a
              then Some (snd (snd (calculate_exam_result now d (finalise a))))
              else result_row d (at_id a))"
    by (simp add: d' handle_result[OF da dn] row no_faults_def)
  show ?thesis
  proof (cases "at_status a = InProgress \<and> now > get_attempt_end_time a")
    case True
    then have "core_row d' (at_id a) = Some (attempt_core (finalise a))"
      using c by simp
    from core_row_status[OF this] r True show ?thesis
      by simp
  next
    case False
    then have "(if at_status a = InProgress \<and> now > get_attempt_end_time a
                then finalise a else a) = a"
      by auto
    then have "core_row d' (at_id a) = Some (attempt_core a)"
      using c by simp
    then have "core_row d' (at_id a) = core_row d (at_id a)"
      by (simp add: core_row_def[of d] row)
    with r False show ?thesis
      by auto
  qed
qed

text \<open>
  Claim C2. Student 3 has an extension of 20 minutes in the exam that ends at 3600
  seconds, so the deadline the specification resolves is 4800 seconds. Both sweeps,
  run at 4000 seconds, submit the attempt of the student, with 3600 seconds as submit
  time: the deadline of the code is the end time of the exam.
\<close>

theorem sweep_ignores_extension:
  "spec_resolveDeadline ex_exam (active_extension ex_db_in_progress_extended 1 3) = 4800000000 \<and>
   attempt_status_of ex_db_in_progress_extended 7 = Some InProgress \<and>
   attempt_status_of (fst (handle no_faults 4000000000 ex_db_in_progress_extended)) 7
     = Some AutoSubmitted \<and>
   submit_time_of (fst (handle no_faults 4000000000 ex_db_in_progress_extended)) 7
     = Some (Some 3600000000) \<and>
   attempt_status_of
     (fst (auto_submit_expired_exams no_faults 4000000000 ex_db_in_progress_extended)) 7
     = Some AutoSubmitted \<and>
   submit_time_of
     (fst (auto_submit_expired_exams no_faults 4000000000 ex_db_in_progress_extended)) 7
     = Some (Some 3600000000)"
  by code_simp


section \<open>Finalisation by the start view\<close>

text \<open>
  Claim C10. When \<open>StudentStartExamView.create\<close> finds an attempt in progress whose
  deadline has passed, it answers with the expiry error and leaves the attempt stored
  as \<open>auto_submitted\<close> with the clock reading as submit time, and the \<open>Result\<close>
  computed from that row. The sweep, run on the same database at the same clock
  reading, stores the deadline as submit time, which is strictly earlier.
\<close>

theorem start_finalises_at_clock_time:
  assumes "wf_db d"
    and "find (\<lambda>e. e_id e = exam_id) (exams d) = Some exam"
    and "find (\<lambda>a. e_id (at_exam a) = e_id exam \<and> at_student a = u_id u \<and>
                     at_status a = InProgress) (attempts d) = Some a"
    and "now > get_attempt_end_time a"
  shows "snd (student_start_exam now u exam_id d) = StartExpired \<and>
         attempt_status_of (fst (student_start_exam now u exam_id d)) (at_id a)
           = Some AutoSubmitted \<and>
         submit_time_of (fst (student_start_exam now u exam_id d)) (at_id a)
           = Some (Some now) \<and>
         result_row (fst (student_start_exam now u exam_id d)) (at_id a)
           = Some (snd (snd (calculate_exam_result now d
                               (a\<lparr>at_submit_time := Some now, at_status := AutoSubmitted\<rparr>)))) \<and>
         map_option r_submitted_at
           (result_row (fst (student_start_exam now u exam_id d)) (at_id a)) = Some now \<and>
         submit_time_of (fst (handle no_faults now d)) (at_id a)
           = Some (Some (get_attempt_end_time a)) \<and>
         submit_time_of (fst (auto_submit_expired_exams no_faults now d)) (at_id a)
           = Some (Some (get_attempt_end_time a)) \<and>
         get_attempt_end_time a < now"
proof -
  let ?a1 = "a\<lparr>at_submit_time := Some now, at_status := AutoSubmitted\<rparr>"
  let ?d1 = "save_attempt ?a1 d"
  have rem: "get_attempt_remaining_time now a = 0"
    using assms(4) by (simp add: get_attempt_remaining_time_def Let_def)
  have st: "student_start_exam now u exam_id d =
              (fst (calculate_exam_result now ?d1 ?a1), StartExpired)"
    using assms(2,3) rem by (simp add: student_start_exam_def Let_def)
  have mem: "a \<in> set (attempts d)" and ip: "at_status a = InProgress"
    using assms(3) by (auto simp: find_Some_iff)
  have c: "core_row (fst (calculate_exam_result now ?d1 ?a1)) (at_id a) = Some (attempt_core ?a1)"
    by (simp add: core_row_calculate)
  have r: "result_row (fst (calculate_exam_result now ?d1 ?a1)) (at_id a) =
             Some (snd (snd (calculate_exam_result now d ?a1)))"
  proof -
    have "snd (snd (calculate_exam_result now ?d1 ?a1)) =
          snd (snd (calculate_exam_result now d ?a1))"
      by (rule calculate_exam_result_res_cong) simp_all
    then show ?thesis by (simp add: result_row_calculate)
  qed
  have rs: "r_submitted_at (snd (snd (calculate_exam_result now d ?a1))) = now"
    by (simp add: calculate_exam_result_res Let_def)
  have sw: "attempt_status_of (fst (handle no_faults now d)) (at_id a) = Some AutoSubmitted \<and>
            submit_time_of (fst (handle no_faults now d)) (at_id a)
              = Some (Some (get_attempt_end_time a)) \<and>
            result_row (fst (handle no_faults now d)) (at_id a)
              = Some (snd (snd (calculate_exam_result now d (finalise a))))"
    using sweep_finalises_expired[OF assms(1) mem, of "fst (handle no_faults now d)" now]
      ip assms(4) by simp
  have sw': "fst (auto_submit_expired_exams no_faults now d) = fst (handle no_faults now d)"
    by (simp add: auto_submit_expired_exams_no_faults)
  from core_row_status[OF c] r rs sw sw' assms(4) show ?thesis
    by (simp add: st)
qed

text \<open>
  Student 3 comes back one microsecond after the end of the exam, at 3600000001: the
  start view stores that instant, the sweep would store 3600000000.
\<close>

theorem start_finalises_at_clock_time_witness:
  "wf_db (ex_db ex_in_progress (ex_answer ex_mcq (JStr ''1''))) \<and>
   find (\<lambda>e. e_id e = 1) (exams (ex_db ex_in_progress (ex_answer ex_mcq (JStr ''1''))))
     = Some ex_exam \<and>
   3600000001 > get_attempt_end_time ex_in_progress \<and>
   snd (student_start_exam 3600000001 ex_student 1
          (ex_db ex_in_progress (ex_answer ex_mcq (JStr ''1'')))) = StartExpired \<and>
   submit_time_of
     (fst (student_start_exam 3600000001 ex_student 1
             (ex_db ex_in_progress (ex_answer ex_mcq (JStr ''1''))))) 7
     = Some (Some 3600000001) \<and>
   submit_time_of
     (fst (handle no_faults 3600000001 (ex_db ex_in_progress (ex_answer ex_mcq (JStr ''1''))))) 7
     = Some (Some 3600000000)"
proof -
  let ?d = "ex_db ex_in_progress (ex_answer ex_mcq (JStr ''1''))"
  have h1: "wf_db ?d"
    by code_simp
  have h2: "find (\<lambda>e. e_id e = 1) (exams ?d) = Some ex_exam"
    by code_simp
  have h3: "find (\<lambda>a. e_id (at_exam a) = e_id ex_exam \<and> at_student a = u_id ex_student \<and>
                     at_status a = InProgress) (attempts ?d) = Some ex_in_progress"
    by code_simp
  have h4: "3600000001 > get_attempt_end_time ex_in_progress"
    by code_simp
  have h5: "get_attempt_end_time ex_in_progress = 3600000000" "at_id ex_in_progress = 7"
    by code_simp+
  from start_finalises_at_clock_time[OF h1 h2 h3 h4] h1 h2 h4 h5 show ?thesis
    by simp
qed


section \<open>Storing answers\<close>

declare persist_loop.simps(2) [simp del]

lemma persist_loop_frame:
  "attempts (fst (persist_loop tp a items d n)) = attempts d \<and>
   results (fst (persist_loop tp a items d n)) = results d \<and>
   exams (fst (persist_loop tp a items d n)) = exams d \<and>
   questions (fst (persist_loop tp a items d n)) = questions d \<and>
   extensions (fst (persist_loop tp a items d n)) = extensions d"
proof (induction items arbitrary: d n)
  case Nil
  then show ?case by simp
next
  case (Cons item items)
  show ?case
    by (simp add: persist_loop.simps(2) Let_def Cons split: option.splits list.splits)
qed

lemma persist_frame [simp]:
  "attempts (fst (persist_attempt_answers tp a p d)) = attempts d"
  "results (fst (persist_attempt_answers tp a p d)) = results d"
  "exams (fst (persist_attempt_answers tp a p d)) = exams d"
  "questions (fst (persist_attempt_answers tp a p d)) = questions d"
  "extensions (fst (persist_attempt_answers tp a p d)) = extensions d"
  by (simp_all add: persist_attempt_answers_def persist_loop_frame)

lemma save_answer_own:
  assumes "distinct (map an_id (answers d))" and "r \<in> set (answers d)"
    and "an_id r' = an_id r" and "an_attempt r' = an_attempt r"
  shows "map an_id (answers (save_answer r' d)) = map an_id (answers d)"
    and "i \<noteq> an_attempt r \<Longrightarrow> attempt_answers (save_answer r' d) i = attempt_answers d i"
proof -
  have eq: "answers (save_answer r' d) = map (\<lambda>x. if x = r then r' else x) (answers d)"
    using assms(1-3) by (rule save_answer_existing)
  show "map an_id (answers (save_answer r' d)) = map an_id (answers d)"
    using assms(3) by (simp add: eq comp_def if_distrib cong: if_cong)
  show "attempt_answers (save_answer r' d) i = attempt_answers d i" if "i \<noteq> an_attempt r"
  proof -
    have "filter (\<lambda>x. an_attempt x = i) (map (\<lambda>x. if x = r then r' else x) ys) =
          filter (\<lambda>x. an_attempt x = i) ys" for ys
      using that assms(4) by (induction ys) auto
    then show ?thesis by (simp add: attempt_answers_def eq)
  qed
qed

lemma persist_loop_answers:
  assumes "distinct (map an_id (answers d))"
  shows "map an_id (answers (fst (persist_loop tp a items d n))) = map an_id (answers d) \<and>
         (i \<noteq> at_id a \<longrightarrow>
            attempt_answers (fst (persist_loop tp a items d n)) i = attempt_answers d i)"
  using assms
proof (induction items arbitrary: d n)
  case Nil
  then show ?case by simp
next
  case (Cons item items)
  let ?qv = "py_or (py_or (dict_get item ''question_id'') (dict_get item ''questionId''))
               (dict_get item ''question'')"
  show ?case
  proof (cases "py_truthy ?qv")
    case False
    then show ?thesis
      using Cons.IH[OF Cons.prems] by (simp add: persist_loop.simps(2) Let_def)
  next
    case True
    show ?thesis
    proof (cases "tp ?qv")
      case None
      with True show ?thesis
        by (simp add: persist_loop.simps(2) Let_def)
    next
      case (Some qid)
      let ?sel = "filter (\<lambda>r. an_attempt r = at_id a \<and> q_id (an_question r) = qid) (answers d)"
      show ?thesis
      proof (cases ?sel)
        case Nil
        with True Some show ?thesis
          using Cons.IH[OF Cons.prems] by (simp add: persist_loop.simps(2) Let_def)
      next
        case (Cons r rs)
        note sel = this
        show ?thesis
        proof (cases rs)
          case (Cons r2 rs2)
          with True Some sel show ?thesis
            by (simp add: persist_loop.simps(2) Let_def)
        next
          case Nil
          have rin: "r \<in> set ?sel"
            using sel by simp
          then have rmem: "r \<in> set (answers d)" and ra: "an_attempt r = at_id a"
            by auto
          have step: "map an_id (answers (save_answer r' d)) = map an_id (answers d) \<and>
                      (i \<noteq> at_id a \<longrightarrow>
                         attempt_answers (save_answer r' d) i = attempt_answers d i)"
            if "an_id r' = an_id r" "an_attempt r' = an_attempt r" for r'
            using save_answer_own[OF Cons.prems rmem that] ra by simp
          have ih: "map an_id (answers (fst (persist_loop tp a items (save_answer r' d) m))) =
                      map an_id (answers d) \<and>
                    (i \<noteq> at_id a \<longrightarrow>
                       attempt_answers (fst (persist_loop tp a items (save_answer r' d) m)) i =
                       attempt_answers d i)"
            if "an_id r' = an_id r" "an_attempt r' = an_attempt r" for r' m
          proof -
            have "distinct (map an_id (answers (save_answer r' d)))"
              using step[OF that] Cons.prems by simp
            from Cons.IH[OF this, of m] step[OF that] show ?thesis
              by simp
          qed
          show ?thesis
            using True Some sel Nil Cons.IH[OF Cons.prems]
            by (simp add: persist_loop.simps(2) Let_def ih)
        qed
      qed
    qed
  qed
qed


lemma filter_pair_unique:
  assumes "distinct (map (\<lambda>a. (e_id (at_exam a), at_student a)) xs)" and "a \<in> set xs"
  shows "filter (\<lambda>x. e_id (at_exam x) = e_id (at_exam a) \<and> at_student x = at_student a \<and> Q x) xs
           = (if Q a then [a] else [])"
  using assms
proof (induction xs)
  case Nil
  then show ?case by simp
next
  case (Cons x xs)
  show ?case
  proof (cases "x = a")
    case True
    have "filter (\<lambda>x. e_id (at_exam x) = e_id (at_exam a) \<and> at_student x = at_student a \<and> Q x) xs
            = []"
      using Cons.prems True by (auto simp: filter_empty_conv image_iff)
    with True show ?thesis by simp
  next
    case False
    then have "a \<in> set xs" using Cons.prems by simp
    moreover have "\<not> (e_id (at_exam x) = e_id (at_exam a) \<and> at_student x = at_student a)"
      using Cons.prems \<open>a \<in> set xs\<close> by (auto simp: image_iff)
    ultimately show ?thesis using Cons by auto
  qed
qed

lemma find_as_filter:
  "find P ys = (case filter P ys of [] \<Rightarrow> None | y # _ \<Rightarrow> Some y)"
  by (induction ys) auto

lemma find_pair_unique:
  assumes "distinct (map (\<lambda>a. (e_id (at_exam a), at_student a)) xs)" and "a \<in> set xs"
  shows "find (\<lambda>x. e_id (at_exam x) = e_id (at_exam a) \<and> at_student x = at_student a \<and> Q x) xs
           = (if Q a then Some a else None)"
  unfolding find_as_filter filter_pair_unique[OF assms]
  by simp

text \<open>
  Claim C7. A save that succeeds found an attempt in progress of the student in the
  exam, at a clock reading of at most the deadline of that attempt plus 30 seconds.
  For an attempt in progress, a save later than that is answered with the expiry
  error and stores nothing. No save changes the answers or the row of an attempt that
  is submitted or auto-submitted; when the attempt of the student in the exam is such
  an attempt, the save is answered with "active attempt not found" and stores nothing.
\<close>

theorem student_save_answer_deadline:
  assumes "wf_db d"
    and "student_save_answer to_python now u exam_id payload d = (d', resp)"
  shows "(resp = SaveOk n \<longrightarrow>
            (\<exists>a. a \<in> set (attempts d) \<and> e_id (at_exam a) = exam_id \<and> at_student a = u_id u \<and>
                 at_status a = InProgress \<and> now \<le> get_attempt_end_time a + 30000000)) \<and>
         (a \<in> set (attempts d) \<and> e_id (at_exam a) = exam_id \<and> at_student a = u_id u \<and>
          at_status a = InProgress \<and> now > get_attempt_end_time a + 30000000 \<longrightarrow>
            resp = SaveExpired \<and> d' = d) \<and>
         (t \<in> set (attempts d) \<and> at_status t \<noteq> InProgress \<longrightarrow>
            attempt_answers d' (at_id t) = attempt_answers d (at_id t) \<and>
            attempt_row d' (at_id t) = attempt_row d (at_id t)) \<and>
         (t \<in> set (attempts d) \<and> at_status t \<noteq> InProgress \<and>
          e_id (at_exam t) = exam_id \<and> at_student t = u_id u \<longrightarrow>
            resp = SaveNoActiveAttempt \<and> d' = d)"
proof -
  let ?P = "\<lambda>a. e_id (at_exam a) = exam_id \<and> at_student a = u_id u \<and> at_status a = InProgress"
  let ?sel = "filter ?P (attempts d)"
  have da: "distinct (map at_id (attempts d))"
    and dp: "distinct (map (\<lambda>a. (e_id (at_exam a), at_student a)) (attempts d))"
    and dn: "distinct (map an_id (answers d))"
    using assms(1) by (simp_all add: wf_db_def)
  have sel_unique: "?sel = [b]"
    if "b \<in> set (attempts d)" "e_id (at_exam b) = exam_id" "at_student b = u_id u"
       "at_status b = InProgress" for b
    using filter_pair_unique[OF dp that(1), of "\<lambda>x. at_status x = InProgress"] that
    by simp
  have sel_none: "?sel = []"
    if "b \<in> set (attempts d)" "e_id (at_exam b) = exam_id" "at_student b = u_id u"
       "at_status b \<noteq> InProgress" for b
    using filter_pair_unique[OF dp that(1), of "\<lambda>x. at_status x = InProgress"] that
    by simp
  have sel_mem: "b \<in> set (attempts d) \<and> ?P b" if "?sel = b # bs" for b bs
  proof -
    have "b \<in> set ?sel" using that by simp
    then show ?thesis by simp
  qed
  \<comment> \<open>the first part\<close>
  have p1: "\<exists>a. a \<in> set (attempts d) \<and> e_id (at_exam a) = exam_id \<and> at_student a = u_id u \<and>
                 at_status a = InProgress \<and> now \<le> get_attempt_end_time a + 30000000"
    if "resp = SaveOk n"
  proof (cases ?sel)
    case Nil
    with assms(2) that show ?thesis
      by (simp add: student_save_answer_def)
  next
    case (Cons b bs)
    show ?thesis
    proof (cases bs)
      case (Cons b2 bs2)
      with \<open>?sel = b # bs\<close> assms(2) that show ?thesis
        by (simp add: student_save_answer_def)
    next
      case Nil
      have "now \<le> get_attempt_end_time b + 30000000"
        using \<open>?sel = b # bs\<close> Nil assms(2) that
        by (auto simp: student_save_answer_def Let_def split: if_splits)
      with sel_mem[OF \<open>?sel = b # bs\<close>] show ?thesis
        by blast
    qed
  qed
  \<comment> \<open>the second part\<close>
  have p2: "resp = SaveExpired \<and> d' = d"
    if "a \<in> set (attempts d)" "e_id (at_exam a) = exam_id" "at_student a = u_id u"
       "at_status a = InProgress" "now > get_attempt_end_time a + 30000000"
    using sel_unique[OF that(1-4)] that(5) assms(2)
    by (simp add: student_save_answer_def Let_def)
  \<comment> \<open>the third part\<close>
  have p3: "attempt_answers d' (at_id t) = attempt_answers d (at_id t) \<and>
            attempt_row d' (at_id t) = attempt_row d (at_id t)"
    if t: "t \<in> set (attempts d)" "at_status t \<noteq> InProgress"
  proof (cases ?sel)
    case Nil
    with assms(2) show ?thesis
      by (simp add: student_save_answer_def)
  next
    case (Cons b bs)
    show ?thesis
    proof (cases bs)
      case (Cons b2 bs2)
      with \<open>?sel = b # bs\<close> assms(2) show ?thesis
        by (simp add: student_save_answer_def)
    next
      case Nil
      have b: "b \<in> set (attempts d)" "at_status b = InProgress"
        using sel_mem[OF \<open>?sel = b # bs\<close>] by simp_all
      have "at_id t \<noteq> at_id b"
      proof
        assume "at_id t = at_id b"
        then have "t = b"
          using da t(1) b(1) by (auto simp: distinct_map inj_on_def)
        with t(2) b(2) show False by simp
      qed
      then have keep: "attempt_answers (fst (persist_attempt_answers to_python b payload d)) (at_id t)
                         = attempt_answers d (at_id t)"
        using persist_loop_answers[OF dn, of to_python b "payload_answer_items payload" 0 "at_id t"]
        by (simp add: persist_attempt_answers_def)
      have rows: "attempt_row (fst (persist_attempt_answers to_python b payload d)) (at_id t)
                    = attempt_row d (at_id t)"
        by (simp add: attempt_row_def)
      have "d' = d \<or> d' = fst (persist_attempt_answers to_python b payload d)"
        using \<open>?sel = b # bs\<close> Nil assms(2)
        by (auto simp: student_save_answer_def Let_def split: if_splits prod.splits sum.splits)
      with keep rows show ?thesis
        by auto
    qed
  qed
  \<comment> \<open>the fourth part\<close>
  have p4: "resp = SaveNoActiveAttempt \<and> d' = d"
    if "t \<in> set (attempts d)" "at_status t \<noteq> InProgress"
       "e_id (at_exam t) = exam_id" "at_student t = u_id u"
    using sel_none[OF that(1,3,4,2)] assms(2)
    by (simp add: student_save_answer_def)
  from p1 p2 p3 p4 show ?thesis
    by blast
qed


text \<open>
  The exam ends at 3600 seconds. Student 3, whose attempt is in progress, saves an
  answer at 3620 seconds and is answered with success; at 3630 seconds and one
  microsecond the save is refused as expired. Once the attempt is submitted, the save
  finds no active attempt.
\<close>

theorem student_save_answer_deadline_witness:
  "wf_db (ex_db ex_in_progress (ex_answer ex_mcq (JObj []))) \<and>
   ex_in_progress \<in> set (attempts (ex_db ex_in_progress (ex_answer ex_mcq (JObj [])))) \<and>
   at_status ex_in_progress = InProgress \<and>
   3630000001 > get_attempt_end_time ex_in_progress + 30000000 \<and>
   snd (student_save_answer ex_to_python 3620000000 ex_student 1 ex_payload
          (ex_db ex_in_progress (ex_answer ex_mcq (JObj [])))) = SaveOk 1 \<and>
   student_save_answer ex_to_python 3630000001 ex_student 1 ex_payload
     (ex_db ex_in_progress (ex_answer ex_mcq (JObj [])))
     = (ex_db ex_in_progress (ex_answer ex_mcq (JObj [])), SaveExpired) \<and>
   at_status ex_attempt \<noteq> InProgress \<and>
   student_save_answer ex_to_python 3000000000 ex_student 1 ex_payload
     (ex_db ex_attempt (ex_answer ex_mcq (JObj [])))
     = (ex_db ex_attempt (ex_answer ex_mcq (JObj [])), SaveNoActiveAttempt)"
proof -
  let ?d = "ex_db ex_in_progress (ex_answer ex_mcq (JObj []))"
  let ?e = "ex_db ex_attempt (ex_answer ex_mcq (JObj []))"
  have w: "wf_db ?d" "wf_db ?e"
    by code_simp+
  have m: "ex_in_progress \<in> set (attempts ?d)" "ex_attempt \<in> set (attempts ?e)"
    by (simp_all add: ex_db_def)
  have k: "e_id (at_exam ex_in_progress) = 1" "at_student ex_in_progress = u_id ex_student"
    "at_status ex_in_progress = InProgress"
    "e_id (at_exam ex_attempt) = 1" "at_student ex_attempt = u_id ex_student"
    "at_status ex_attempt \<noteq> InProgress"
    by (simp_all add: ex_in_progress_def ex_attempt_def ex_exam_def ex_student_def)
  have late: "3630000001 > get_attempt_end_time ex_in_progress + 30000000"
    by code_simp
  have ok: "snd (student_save_answer ex_to_python 3620000000 ex_student 1 ex_payload ?d) = SaveOk 1"
    by code_simp
  obtain d1 r1 where s1:
    "student_save_answer ex_to_python 3630000001 ex_student 1 ex_payload ?d = (d1, r1)"
    by (cases "student_save_answer ex_to_python 3630000001 ex_student 1 ex_payload ?d")
  obtain d2 r2 where s2:
    "student_save_answer ex_to_python 3000000000 ex_student 1 ex_payload ?e = (d2, r2)"
    by (cases "student_save_answer ex_to_python 3000000000 ex_student 1 ex_payload ?e")
  have e1: "r1 = SaveExpired \<and> d1 = ?d"
    using student_save_answer_deadline[OF w(1) s1, of 0 ex_in_progress ex_attempt] m k late
    by simp
  have e2: "r2 = SaveNoActiveAttempt \<and> d2 = ?e"
    using student_save_answer_deadline[OF w(2) s2, of 0 ex_in_progress ex_attempt] m k
    by simp
  from w m k late ok s1 s2 e1 e2 show ?thesis
    by simp
qed


section \<open>Submitting\<close>

lemma save_attempt_replace:
  assumes "distinct (map at_id (attempts d))" and "a \<in> set (attempts d)"
    and "at_id a' = at_id a"
  shows "attempts (save_attempt a' d) = map (\<lambda>r. if r = a then a' else r) (attempts d)"
proof -
  have ex: "list_ex (\<lambda>r. at_id r = at_id a') (attempts d)"
    using assms by (auto simp: list_ex_iff)
  have "\<And>x. x \<in> set (attempts d) \<Longrightarrow> (at_id x = at_id a') = (x = a)"
    using assms by (auto simp: distinct_map inj_on_def)
  then have "map (\<lambda>r. if at_id r = at_id a' then a' else r) (attempts d)
               = map (\<lambda>r. if r = a then a' else r) (attempts d)"
    by (intro map_cong) auto
  with ex show ?thesis by (simp add: save_attempt_def)
qed

lemma map_replace_key:
  "f a' = f a \<Longrightarrow> map f (map (\<lambda>r. if r = a then a' else r) xs) = map f xs"
  by (induction xs) auto

lemma replace_member:
  "a \<in> set xs \<Longrightarrow> a' \<in> set (map (\<lambda>r. if r = a then a' else r) xs)"
  by (induction xs) auto

lemma wf_db_save_attempt:
  assumes "wf_db d" and "a \<in> set (attempts d)" and "at_id a' = at_id a"
    and "at_exam a' = at_exam a" and "at_student a' = at_student a"
  shows "wf_db (save_attempt a' d)" and "a' \<in> set (attempts (save_attempt a' d))"
proof -
  have da: "distinct (map at_id (attempts d))"
    using assms(1) by (simp add: wf_db_def)
  have eq: "attempts (save_attempt a' d) = map (\<lambda>r. if r = a then a' else r) (attempts d)"
    using da assms(2,3) by (rule save_attempt_replace)
  have k1: "map at_id (attempts (save_attempt a' d)) = map at_id (attempts d)"
    unfolding eq using assms(3) by (rule map_replace_key)
  have k2: "map (\<lambda>a. (e_id (at_exam a), at_student a)) (attempts (save_attempt a' d)) =
            map (\<lambda>a. (e_id (at_exam a), at_student a)) (attempts d)"
    unfolding eq using assms(4,5) by (intro map_replace_key) simp
  show "wf_db (save_attempt a' d)"
    using assms(1) k1 k2 by (simp add: wf_db_def)
  show "a' \<in> set (attempts (save_attempt a' d))"
    unfolding eq using assms(2) by (rule replace_member)
qed

lemma wf_db_attempts_cong:
  "attempts d' = attempts d \<Longrightarrow> map an_id (answers d') = map an_id (answers d) \<Longrightarrow>
     wf_db d' = wf_db d"
  by (simp add: wf_db_def)

lemma wf_db_calculate:
  assumes "wf_db d" and "a \<in> set (attempts d)"
  shows "wf_db (fst (calculate_exam_result now d a))"
    and "fst (snd (calculate_exam_result now d a)) \<in> set (attempts (fst (calculate_exam_result now d a)))"
proof -
  let ?a2 = "fst (snd (calculate_exam_result now d a))"
  have k: "at_id ?a2 = at_id a" "at_exam ?a2 = at_exam a" "at_student ?a2 = at_student a"
    by (simp_all add: calculate_exam_result_attempt)
  have dn: "distinct (map an_id (answers d))"
    using assms(1) by (simp add: wf_db_def)
  have "wf_db (fst (calculate_exam_result now d a)) = wf_db (save_attempt ?a2 d)"
    by (rule wf_db_attempts_cong)
       (simp_all add: calculate_exam_result_attempts calculate_ids[OF dn])
  then show "wf_db (fst (calculate_exam_result now d a))"
    using wf_db_save_attempt(1)[OF assms k] by simp
  show "?a2 \<in> set (attempts (fst (calculate_exam_result now d a)))"
    using wf_db_save_attempt(2)[OF assms k] by (simp add: calculate_exam_result_attempts)
qed

lemma wf_db_persist:
  assumes "wf_db d"
  shows "wf_db (fst (persist_attempt_answers tp a p d))"
proof -
  have dn: "distinct (map an_id (answers d))"
    using assms by (simp add: wf_db_def)
  have "wf_db (fst (persist_attempt_answers tp a p d)) = wf_db d"
    using persist_loop_answers[OF dn, of tp a "payload_answer_items p" 0 0]
    by (intro wf_db_attempts_cong) (simp_all add: persist_attempt_answers_def persist_loop_frame)
  with assms show ?thesis by simp
qed

lemma submit_terminal:
  assumes "wf_db d" and "t \<in> set (attempts d)" and "at_status t \<noteq> InProgress"
    and "e_id (at_exam t) = exam_id" and "at_student t = u_id u"
  shows "student_submit_exam tp now u exam_id payload d = (d, SubmitAlreadyDone (at_submit_time t))"
proof -
  have dp: "distinct (map (\<lambda>a. (e_id (at_exam a), at_student a)) (attempts d))"
    using assms(1) by (simp add: wf_db_def)
  have st: "at_status t = Submitted \<or> at_status t = AutoSubmitted"
    using assms(3) by (cases "at_status t") auto
  have f1: "find (\<lambda>a. e_id (at_exam a) = exam_id \<and> at_student a = u_id u \<and>
                      at_status a = InProgress) (attempts d) = None"
    using find_pair_unique[OF dp assms(2), of "\<lambda>x. at_status x = InProgress"] assms(3,4,5)
    by simp
  have f2: "find (\<lambda>a. e_id (at_exam a) = exam_id \<and> at_student a = u_id u \<and>
                      (at_status a = Submitted \<or> at_status a = AutoSubmitted)) (attempts d)
              = Some t"
    using find_pair_unique[OF dp assms(2),
            of "\<lambda>x. at_status x = Submitted \<or> at_status x = AutoSubmitted"] assms(4,5) st
    by simp
  show ?thesis
    by (simp add: student_submit_exam_def f1 f2)
qed

lemma submit_in_progress:
  assumes "wf_db d" and "a \<in> set (attempts d)" and "at_status a = InProgress"
    and "e_id (at_exam a) = exam_id" and "at_student a = u_id u"
  shows "student_submit_exam tp now u exam_id payload d =
           (case persist_attempt_answers tp a payload d of
              (d1, Inl e) \<Rightarrow> (d1, SubmitRaised e)
            | (d1, Inr n) \<Rightarrow>
                (fst (calculate_exam_result now
                        (save_attempt (a\<lparr>at_submit_time := Some now, at_status := Submitted\<rparr>) d1)
                        (a\<lparr>at_submit_time := Some now, at_status := Submitted\<rparr>)),
                 SubmitDone (Some now)))"
proof -
  have dp: "distinct (map (\<lambda>a. (e_id (at_exam a), at_student a)) (attempts d))"
    using assms(1) by (simp add: wf_db_def)
  have f1: "find (\<lambda>a. e_id (at_exam a) = exam_id \<and> at_student a = u_id u \<and>
                      at_status a = InProgress) (attempts d) = Some a"
    using find_pair_unique[OF dp assms(2), of "\<lambda>x. at_status x = InProgress"] assms(3,4,5)
    by simp
  show ?thesis
    by (simp add: student_submit_exam_def f1 Let_def split_beta calculate_exam_result_attempt
          split: prod.splits sum.splits)
qed


text \<open>
  Claim C8. For an attempt that is submitted or auto-submitted, a submit of its student
  in its exam is answered with success and the submit time stored, and leaves the
  database, with the attempt, its answers and its \<open>Result\<close>, as it is. In particular,
  when a first submit of an attempt in progress succeeds, it is answered with its
  clock reading, a second submit is answered with that same time and changes nothing,
  and the attempt has one \<open>Result\<close> row if it had at most one before.
\<close>

theorem student_submit_exam_terminal:
  assumes "wf_db d"
  shows "(t \<in> set (attempts d) \<and> at_status t \<noteq> InProgress \<and>
          e_id (at_exam t) = exam_id \<and> at_student t = u_id u \<longrightarrow>
            student_submit_exam to_python now u exam_id payload d
              = (d, SubmitAlreadyDone (at_submit_time t)) \<and>
            submit_status (snd (student_submit_exam to_python now u exam_id payload d)) = 200) \<and>
         (a \<in> set (attempts d) \<and> at_status a = InProgress \<and>
          e_id (at_exam a) = exam_id \<and> at_student a = u_id u \<and>
          student_submit_exam to_python now1 u exam_id payload1 d = (d1, SubmitDone s) \<longrightarrow>
            s = Some now1 \<and>
            student_submit_exam to_python now2 u exam_id payload2 d1
              = (d1, SubmitAlreadyDone (Some now1)) \<and>
            result_count d1 (at_id a) = max 1 (result_count d (at_id a)))"
proof -
  have p1: "student_submit_exam to_python now u exam_id payload d
              = (d, SubmitAlreadyDone (at_submit_time t)) \<and>
            submit_status (snd (student_submit_exam to_python now u exam_id payload d)) = 200"
    if "t \<in> set (attempts d)" "at_status t \<noteq> InProgress"
       "e_id (at_exam t) = exam_id" "at_student t = u_id u"
    using submit_terminal[OF assms that, of to_python now payload] by simp
  have p2: "s = Some now1 \<and>
            student_submit_exam to_python now2 u exam_id payload2 d1
              = (d1, SubmitAlreadyDone (Some now1)) \<and>
            result_count d1 (at_id a) = max 1 (result_count d (at_id a))"
    if a: "a \<in> set (attempts d)" "at_status a = InProgress"
       "e_id (at_exam a) = exam_id" "at_student a = u_id u"
      and first: "student_submit_exam to_python now1 u exam_id payload1 d = (d1, SubmitDone s)"
  proof -
    let ?a1 = "a\<lparr>at_submit_time := Some now1, at_status := Submitted\<rparr>"
    obtain dp r where per: "persist_attempt_answers to_python a payload1 d = (dp, r)"
      by (cases "persist_attempt_answers to_python a payload1 d")
    have dp: "dp = fst (persist_attempt_answers to_python a payload1 d)"
      using per by simp
    let ?d2 = "save_attempt ?a1 dp"
    let ?c = "calculate_exam_result now1 ?d2 ?a1"
    from first per obtain n where r: "r = Inr n"
      using submit_in_progress[OF assms a, of to_python now1 payload1]
      by (cases r) auto
    have eq: "student_submit_exam to_python now1 u exam_id payload1 d
                = (fst ?c, SubmitDone (Some now1))"
      using submit_in_progress[OF assms a, of to_python now1 payload1] per r by simp
    have "(d1, SubmitDone s) = (fst ?c, SubmitDone (Some now1))"
      using first eq by (rule trans[OF sym])
    then have d1: "d1 = fst ?c" and s: "s = Some now1"
      by simp_all
    have wp: "wf_db dp"
      unfolding dp by (rule wf_db_persist[OF assms])
    have ap: "a \<in> set (attempts dp)"
      using a(1) by (simp add: dp)
    have w2: "wf_db ?d2" and m2: "?a1 \<in> set (attempts ?d2)"
      using wf_db_save_attempt[OF wp ap, of ?a1] by simp_all
    have w3: "wf_db d1" and m3: "fst (snd ?c) \<in> set (attempts d1)"
      unfolding d1 using wf_db_calculate[OF w2 m2] by simp_all
    have k: "at_status (fst (snd ?c)) \<noteq> InProgress" "e_id (at_exam (fst (snd ?c))) = exam_id"
      "at_student (fst (snd ?c)) = u_id u" "at_submit_time (fst (snd ?c)) = Some now1"
      using a by (simp_all add: calculate_exam_result_attempt)
    have second: "student_submit_exam to_python now2 u exam_id payload2 d1
                    = (d1, SubmitAlreadyDone (Some now1))"
      using submit_terminal[OF w3 m3 k(1-3), of to_python now2 payload2] k(4) by simp
    have "result_count d1 (at_id ?a1) = max 1 (result_count ?d2 (at_id ?a1))"
      unfolding d1 by (rule result_count_calculate)
    moreover have "result_count ?d2 (at_id a) = result_count d (at_id a)"
      by (simp add: result_count_def dp)
    ultimately have "result_count d1 (at_id a) = max 1 (result_count d (at_id a))"
      by simp
    with s second show ?thesis
      by simp
  qed
  from p1 p2 show ?thesis
    by blast
qed

text \<open>
  Student 3 submits the attempt in progress at 3000 seconds and again at 3001 seconds:
  both calls answer 3000 seconds, the second changes nothing, and there is one
  \<open>Result\<close> row.
\<close>

theorem student_submit_exam_terminal_witness:
  "wf_db (ex_db ex_in_progress (ex_answer ex_mcq (JObj []))) \<and>
   ex_in_progress \<in> set (attempts (ex_db ex_in_progress (ex_answer ex_mcq (JObj [])))) \<and>
   at_status ex_in_progress = InProgress \<and>
   snd (student_submit_exam ex_to_python 3000000000 ex_student 1 ex_payload
          (ex_db ex_in_progress (ex_answer ex_mcq (JObj [])))) = SubmitDone (Some 3000000000) \<and>
   student_submit_exam ex_to_python 3001000000 ex_student 1 (JObj [])
     (fst (student_submit_exam ex_to_python 3000000000 ex_student 1 ex_payload
             (ex_db ex_in_progress (ex_answer ex_mcq (JObj [])))))
     = (fst (student_submit_exam ex_to_python 3000000000 ex_student 1 ex_payload
               (ex_db ex_in_progress (ex_answer ex_mcq (JObj [])))),
        SubmitAlreadyDone (Some 3000000000)) \<and>
   result_count
     (fst (student_submit_exam ex_to_python 3000000000 ex_student 1 ex_payload
             (ex_db ex_in_progress (ex_answer ex_mcq (JObj []))))) 7 = 1"
proof -
  let ?d = "ex_db ex_in_progress (ex_answer ex_mcq (JObj []))"
  let ?s = "student_submit_exam ex_to_python 3000000000 ex_student 1 ex_payload ?d"
  have w: "wf_db ?d"
    by code_simp
  have m: "ex_in_progress \<in> set (attempts ?d)"
    by (simp add: ex_db_def)
  have k: "e_id (at_exam ex_in_progress) = 1" "at_student ex_in_progress = u_id ex_student"
    "at_status ex_in_progress = InProgress" "at_id ex_in_progress = 7"
    by (simp_all add: ex_in_progress_def ex_attempt_def ex_exam_def ex_student_def)
  have r: "snd ?s = SubmitDone (Some 3000000000)"
    by code_simp
  then have first: "?s = (fst ?s, SubmitDone (Some 3000000000))"
    by (metis prod.collapse)
  have c: "result_count ?d 7 = 0"
    by (simp add: result_count_def ex_db_def)
  from student_submit_exam_terminal[OF w, of ex_in_progress 1 ex_student ex_to_python
         3000000000 ex_payload ex_in_progress 3000000000 ex_payload "fst ?s"
         "Some 3000000000" 3001000000 "JObj []"]
       w m k r first c
  show ?thesis
    by simp
qed


section \<open>Attempts that are submitted stay so\<close>

lemma key_differs:
  assumes "distinct (map at_id (attempts d))" and "a \<in> set (attempts d)"
    and "at_status a = InProgress" and "attempt_row d i = Some t" and "at_status t \<noteq> InProgress"
  shows "i \<noteq> at_id a"
proof
  assume "i = at_id a"
  then have "attempt_row d i = Some a"
    using attempt_row_member[OF assms(1,2)] by simp
  with assms(3,4,5) show False by simp
qed

lemma core_row_terminal:
  "attempt_row d i = Some t \<Longrightarrow> core_row d i = Some (attempt_core t)"
  by (simp add: core_row_def)

lemma core_row_attempts_cong:
  "attempts d' = attempts d \<Longrightarrow> core_row d' i = core_row d i"
  by (simp add: core_row_def attempt_row_def)

text \<open>Finalising an attempt in progress: the steps shared by start, submit and the sweeps.\<close>

lemma finalise_in_progress:
  assumes "distinct (map at_id (attempts d))" and "a \<in> set (attempts d')"
    and "attempts d' = attempts d"
    and "at_status a = InProgress" and "at_id a1 = at_id a"
  shows "map at_id (attempts (fst (calculate_exam_result now (save_attempt a1 d') a1)))
           = map at_id (attempts d)"
    and "attempt_row d i = Some t \<Longrightarrow> at_status t \<noteq> InProgress \<Longrightarrow>
           core_row (fst (calculate_exam_result now (save_attempt a1 d') a1)) i
             = Some (attempt_core t)"
proof -
  have mem: "at_id a1 \<in> set (map at_id (attempts d'))"
    using assms(2,5) by (auto simp: image_iff)
  have 1: "map at_id (attempts (save_attempt a1 d')) = map at_id (attempts d')"
    using mem by (rule save_attempt_present_ids)
  have 2: "at_id a1 \<in> set (map at_id (attempts (save_attempt a1 d')))"
    using mem 1 by simp
  show "map at_id (attempts (fst (calculate_exam_result now (save_attempt a1 d') a1)))
           = map at_id (attempts d)"
    using calculate_attempt_ids[OF 2, of now] 1 assms(3) by simp
  show "core_row (fst (calculate_exam_result now (save_attempt a1 d') a1)) i
             = Some (attempt_core t)"
    if t: "attempt_row d i = Some t" "at_status t \<noteq> InProgress"
  proof -
    have "i \<noteq> at_id a"
      using key_differs[OF assms(1) _ assms(4) t] assms(2,3) by simp
    then have "core_row (fst (calculate_exam_result now (save_attempt a1 d') a1)) i
                 = core_row d' i"
      using assms(5) by (simp add: core_row_calculate core_row_save_attempt)
    also have "\<dots> = core_row d i"
      by (rule core_row_attempts_cong[OF assms(3)])
    also have "\<dots> = Some (attempt_core t)"
      by (rule core_row_terminal[OF t(1)])
    finally show ?thesis .
  qed
qed

lemma fold_max_ge_start: "(m::nat) \<le> fold max ids m"
proof (induction ids arbitrary: m)
  case Nil
  then show ?case by simp
next
  case (Cons a ids)
  have "m \<le> max a m" by simp
  also have "\<dots> \<le> fold max ids (max a m)" by (rule Cons.IH)
  finally show ?case by simp
qed

lemma fold_max_ge_member: "x \<in> set ids \<Longrightarrow> (x::nat) \<le> fold max ids m"
proof (induction ids arbitrary: m)
  case Nil
  then show ?case by simp
next
  case (Cons a ids)
  show ?case
  proof (cases "x = a")
    case True
    have "x \<le> max a m" using True by simp
    also have "\<dots> \<le> fold max ids (max a m)" by (rule fold_max_ge_start)
    finally show ?thesis by simp
  next
    case False
    then show ?thesis using Cons by simp
  qed
qed

lemma fresh_id_notin: "fresh_id ids \<notin> set ids"
proof
  assume "fresh_id ids \<in> set ids"
  then have "fresh_id ids \<le> fold max ids 0"
    by (rule fold_max_ge_member)
  then show False
    by (simp add: fresh_id_def)
qed

lemma create_answers_frame [simp]:
  "attempts (create_answers aid qs d) = attempts d"
  "results (create_answers aid qs d) = results d"
  by (induction aid qs d rule: create_answers.induct; simp)+


lemma terminal_kept_same:
  "distinct (map at_id (attempts d)) \<Longrightarrow> attempts d' = attempts d \<Longrightarrow> terminal_kept d d'"
  by (simp add: terminal_kept_def core_row_def attempt_row_def)

lemma terminal_kept_cores:
  assumes "distinct (map at_id (attempts d))"
    and "map at_id (attempts d') = map at_id (attempts d)"
    and "\<And>i. core_row d' i = core_row d i"
  shows "terminal_kept d d'"
  using assms by (simp add: terminal_kept_def core_row_terminal)

lemma terminal_kept_finalise:
  assumes "distinct (map at_id (attempts d))" and "a \<in> set (attempts d')"
    and "attempts d' = attempts d"
    and "at_status a = InProgress" and "at_id a1 = at_id a"
  shows "terminal_kept d (fst (calculate_exam_result now (save_attempt a1 d') a1))"
  using finalise_in_progress[OF assms] assms(1)
  by (simp add: terminal_kept_def)

lemma terminal_kept_trans:
  assumes "terminal_kept d d'" and "terminal_kept d' d''"
  shows "terminal_kept d d''"
proof -
  have "core_row d'' i = Some (attempt_core t)"
    if t: "attempt_row d i = Some t" "at_status t \<noteq> InProgress" for i t
  proof -
    have "core_row d' i = Some (attempt_core t)"
      using assms(1) t by (simp add: terminal_kept_def)
    then obtain t' where t': "attempt_row d' i = Some t'" "attempt_core t' = attempt_core t"
      by (auto simp: core_row_def)
    then have "at_status t' \<noteq> InProgress"
      using t(2) by (simp add: attempt_core_def)
    then have "core_row d'' i = Some (attempt_core t')"
      using assms(2) t'(1) by (simp add: terminal_kept_def)
    with t'(2) show ?thesis by simp
  qed
  with assms(2) show ?thesis
    by (simp add: terminal_kept_def)
qed

lemma attempt_row_key_mem:
  assumes "attempt_row d i = Some t"
  shows "i \<in> set (map at_id (attempts d))"
proof -
  have "t \<in> set (attempts d)" "at_id t = i"
    using attempt_row_SomeD[OF assms] by simp_all
  then have "i \<in> at_id ` set (attempts d)"
    by (intro image_eqI[of _ _ t]) simp_all
  then show ?thesis by simp
qed

lemma calculate_on_core:
  assumes "core_row d (at_id a) = Some (attempt_core a)"
  shows "core_row (fst (calculate_exam_result now d a)) i = core_row d i"
    and "map at_id (attempts (fst (calculate_exam_result now d a))) = map at_id (attempts d)"
proof -
  show "core_row (fst (calculate_exam_result now d a)) i = core_row d i"
    using assms by (simp add: core_row_calculate)
  obtain y where "attempt_row d (at_id a) = Some y"
    using assms by (auto simp: core_row_def)
  then have "at_id a \<in> set (map at_id (attempts d))"
    by (rule attempt_row_key_mem)
  then show "map at_id (attempts (fst (calculate_exam_result now d a))) = map at_id (attempts d)"
    by (rule calculate_attempt_ids)
qed

subsection \<open>Start\<close>

lemma terminal_kept_start:
  assumes "distinct (map at_id (attempts d))"
  shows "terminal_kept d (fst (student_start_exam now u exam_id d))"
proof (cases "find (\<lambda>e. e_id e = exam_id) (exams d)")
  case None
  then show ?thesis
    using assms by (simp add: student_start_exam_def terminal_kept_same)
next
  case (Some exam)
  note ex = this
  show ?thesis
  proof (cases "find (\<lambda>a. e_id (at_exam a) = e_id exam \<and> at_student a = u_id u \<and>
                           at_status a = InProgress) (attempts d)")
    case (Some a)
    then have a: "a \<in> set (attempts d)" "at_status a = InProgress"
      by (auto simp: find_Some_iff)
    have fin: "terminal_kept d
                 (fst (calculate_exam_result now
                         (save_attempt (a\<lparr>at_submit_time := Some now, at_status := AutoSubmitted\<rparr>) d)
                         (a\<lparr>at_submit_time := Some now, at_status := AutoSubmitted\<rparr>)))"
      using a assms by (intro terminal_kept_finalise[of d a d]) simp_all
    show ?thesis
      using ex Some fin assms
      by (simp add: student_start_exam_def Let_def terminal_kept_same)
  next
    case None
    note np = this
    show ?thesis
    proof (cases "find (\<lambda>a. e_id (at_exam a) = e_id exam \<and> at_student a = u_id u \<and>
                             (at_status a = Submitted \<or> at_status a = AutoSubmitted))
                    (attempts d)")
      case (Some s)
      then show ?thesis
        using ex np assms by (simp add: student_start_exam_def terminal_kept_same)
    next
      case None
      let ?new = "\<lparr>at_id = fresh_id (map at_id (attempts d)),
                    at_exam = exam, at_student = u_id u, at_start_time = now,
                    at_submit_time = None, at_status = InProgress,
                    at_total_score = None, at_obtained_score = None\<rparr>"
      let ?d2 = "create_answers (at_id ?new)
                   (filter (\<lambda>q. q_exam q = e_id exam) (questions (d\<lparr>attempts := ?new # attempts d\<rparr>)))
                   (d\<lparr>attempts := ?new # attempts d\<rparr>)"
      have at2: "attempts ?d2 = ?new # attempts d"
        by simp
      have fresh: "at_id ?new \<notin> set (map at_id (attempts d))"
        using fresh_id_notin[of "map at_id (attempts d)"] by simp
      have "terminal_kept d ?d2"
      proof -
        have "core_row ?d2 i = Some (attempt_core t)"
          if t: "attempt_row d i = Some t" for i t
        proof -
          have "i \<in> set (map at_id (attempts d))"
            using t by (rule attempt_row_key_mem)
          with fresh have "i \<noteq> at_id ?new"
            by blast
          then show ?thesis
            using t unfolding core_row_def attempt_row_def at2 by auto
        qed
        moreover have "distinct (map at_id (attempts ?d2))"
          unfolding at2 using assms fresh by simp
        ultimately show ?thesis
          by (simp add: terminal_kept_def)
      qed
      then show ?thesis
        using ex np None assms
        by (simp add: student_start_exam_def Let_def split_beta terminal_kept_same)
    qed
  qed
qed

subsection \<open>Save and submit\<close>

lemma terminal_kept_save:
  assumes "distinct (map at_id (attempts d))"
  shows "terminal_kept d (fst (student_save_answer tp now u exam_id payload d))"
proof -
  have "attempts (fst (student_save_answer tp now u exam_id payload d)) = attempts d"
    by (simp add: student_save_answer_def Let_def split: list.splits prod.splits sum.splits)
       (metis fst_conv persist_frame(1))
  with assms show ?thesis
    by (rule terminal_kept_same)
qed

lemma terminal_kept_submit:
  assumes "distinct (map at_id (attempts d))"
  shows "terminal_kept d (fst (student_submit_exam tp now u exam_id payload d))"
proof (cases "find (\<lambda>a. e_id (at_exam a) = exam_id \<and> at_student a = u_id u \<and>
                         at_status a = InProgress) (attempts d)")
  case None
  then show ?thesis
    using assms by (simp add: student_submit_exam_def terminal_kept_same split: option.splits)
next
  case (Some a)
  then have a: "a \<in> set (attempts d)" "at_status a = InProgress"
    by (auto simp: find_Some_iff)
  obtain dp r where per: "persist_attempt_answers tp a payload d = (dp, r)"
    by (cases "persist_attempt_answers tp a payload d")
  have dp: "attempts dp = attempts d"
    using persist_frame(1)[of tp a payload d] per by simp
  show ?thesis
  proof (cases r)
    case (Inl e)
    with Some per dp assms show ?thesis
      by (simp add: student_submit_exam_def terminal_kept_same)
  next
    case (Inr n)
    have "terminal_kept d
            (fst (calculate_exam_result now
                    (save_attempt (a\<lparr>at_submit_time := Some now, at_status := Submitted\<rparr>) dp)
                    (a\<lparr>at_submit_time := Some now, at_status := Submitted\<rparr>)))"
      using a dp assms by (intro terminal_kept_finalise[of d a dp]) simp_all
    with Some per Inr show ?thesis
      by (simp add: student_submit_exam_def Let_def split_beta)
  qed
qed


subsection \<open>Grading and recomputing\<close>

lemma terminal_kept_evaluate:
  assumes "distinct (map at_id (attempts d))"
  shows "terminal_kept d (fst (staff_evaluate_answer now g aid qid score fb d))"
proof -
  let ?sel = "filter (\<lambda>r. an_attempt r = aid \<and> q_id (an_question r) = qid) (answers d)"
  show ?thesis
  proof (cases ?sel)
    case Nil
    then show ?thesis
      using assms by (simp add: staff_evaluate_answer_def terminal_kept_same)
  next
    case (Cons r rs)
    note sel = this
    show ?thesis
    proof (cases rs)
      case (Cons r2 rs2)
      with sel show ?thesis
        using assms by (simp add: staff_evaluate_answer_def terminal_kept_same)
    next
      case Nil
      let ?r1 = "r\<lparr>an_score := Some score, an_feedback := Some fb, an_evaluated_by := Some g\<rparr>"
      let ?d1 = "save_answer ?r1 d"
      have at1: "attempts ?d1 = attempts d"
        by simp
      show ?thesis
      proof (cases "score < 0 \<or> score > q_points (an_question r)")
        case True
        with sel Nil show ?thesis
          using assms by (auto simp: staff_evaluate_answer_def terminal_kept_same)
      next
        case False
        show ?thesis
        proof (cases "find (\<lambda>t. at_id t = an_attempt ?r1) (attempts ?d1)")
          case None
          with sel Nil False show ?thesis
            using assms at1 by (simp add: staff_evaluate_answer_def Let_def terminal_kept_same)
        next
          case (Some a)
          then have row: "attempt_row ?d1 (at_id a) = Some a"
            by (auto simp: attempt_row_def find_Some_iff)
          then have c: "core_row ?d1 (at_id a) = Some (attempt_core a)"
            by (rule core_row_terminal)
          have "terminal_kept d (fst (calculate_exam_result now ?d1 a))"
          proof (rule terminal_kept_cores[OF assms])
            show "map at_id (attempts (fst (calculate_exam_result now ?d1 a))) =
                  map at_id (attempts d)"
              using calculate_on_core(2)[OF c, of now] at1 by simp
            show "core_row (fst (calculate_exam_result now ?d1 a)) i = core_row d i" for i
              using calculate_on_core(1)[OF c, of now i] core_row_attempts_cong[OF at1, of i]
              by simp
          qed
          with sel Nil False Some show ?thesis
            by (simp add: staff_evaluate_answer_def Let_def)
        qed
      qed
    qed
  qed
qed

lemma finalize_loop_cores:
  assumes "\<And>x. x \<in> set xs \<Longrightarrow> core_row d (at_id x) = Some (attempt_core x)"
  shows "core_row (finalize_loop now xs d) i = core_row d i \<and>
         map at_id (attempts (finalize_loop now xs d)) = map at_id (attempts d)"
  using assms
proof (induction xs arbitrary: d)
  case Nil
  then show ?case by simp
next
  case (Cons x xs)
  let ?d1 = "fst (calculate_exam_result now d x)"
  have cx: "core_row d (at_id x) = Some (attempt_core x)"
    using Cons.prems by simp
  have same: "core_row ?d1 j = core_row d j" for j
    by (rule calculate_on_core(1)[OF cx])
  have ids: "map at_id (attempts ?d1) = map at_id (attempts d)"
    by (rule calculate_on_core(2)[OF cx])
  have "core_row ?d1 (at_id y) = Some (attempt_core y)" if "y \<in> set xs" for y
    using same[of "at_id y"] Cons.prems[of y] that by simp
  from Cons.IH[OF this] same[of i] ids show ?case
    by simp
qed

lemma terminal_kept_finalize:
  assumes "distinct (map at_id (attempts d))"
  shows "terminal_kept d (fst (finalize_results now exam_id d))"
proof (cases "find (\<lambda>e. e_id e = exam_id) (exams d)")
  case None
  then show ?thesis
    using assms by (simp add: finalize_results_def terminal_kept_same)
next
  case (Some exam)
  let ?xs = "filter (\<lambda>a. e_id (at_exam a) = e_id exam \<and>
                          (at_status a = Submitted \<or> at_status a = AutoSubmitted)) (attempts d)"
  have rows: "core_row d (at_id x) = Some (attempt_core x)" if "x \<in> set ?xs" for x
  proof -
    have "x \<in> set (attempts d)" using that by simp
    from attempt_row_member[OF assms this] show ?thesis
      by (rule core_row_terminal)
  qed
  have "terminal_kept d (finalize_loop now ?xs d)"
    using finalize_loop_cores[of ?xs d now] rows
    by (intro terminal_kept_cores[OF assms]) simp_all
  with Some assms show ?thesis
    by (simp add: finalize_results_def terminal_kept_same)
qed

subsection \<open>The sweeps\<close>

lemma terminal_kept_handle:
  assumes "distinct (map at_id (attempts d))"
  shows "terminal_kept d (fst (handle faults now d))"
  using assms
  by (simp add: terminal_kept_def handle_attempt_ids handle_core[OF assms])

lemma auto_submit_loop_other:
  assumes "\<And>x. x \<in> set xs \<Longrightarrow> at_id x \<noteq> i"
  shows "core_row (fst (auto_submit_loop faults now xs d c)) i = core_row d i"
  using assms
proof (induction xs arbitrary: d c)
  case Nil
  then show ?case by simp
next
  case (Cons x xs)
  have x: "at_id x \<noteq> i" using Cons.prems by simp
  have rest: "\<And>y. y \<in> set xs \<Longrightarrow> at_id y \<noteq> i" using Cons.prems by simp
  show ?case
    using Cons.IH[OF rest] x
    by (simp add: auto_submit_loop_Cons core_row_handle_step split: option.splits)
qed

lemma auto_submit_loop_attempt_ids:
  assumes "set (map at_id xs) \<subseteq> set (map at_id (attempts d))"
  shows "map at_id (attempts (fst (auto_submit_loop faults now xs d c))) = map at_id (attempts d)"
  using assms
proof (induction xs arbitrary: d c)
  case Nil
  then show ?case by simp
next
  case (Cons x xs)
  have 1: "map at_id (attempts (handle_step faults now x d)) = map at_id (attempts d)"
    using Cons.prems by (intro handle_step_attempt_ids) simp
  have 2: "set (map at_id xs) \<subseteq> set (map at_id (attempts (handle_step faults now x d)))"
    using Cons.prems 1 by simp
  have 3: "set (map at_id xs) \<subseteq> set (map at_id (attempts d))"
    using Cons.prems by simp
  show ?case
    using Cons.IH[OF 2] Cons.IH[OF 3, of c] 1
    by (simp add: auto_submit_loop_Cons split: option.splits)
qed

lemma terminal_kept_task:
  assumes "distinct (map at_id (attempts d))"
  shows "terminal_kept d (fst (auto_submit_expired_exams faults now d))"
proof -
  let ?xs = "filter (\<lambda>a. at_status a = InProgress) (attempts d)"
  have ids: "map at_id (attempts (fst (auto_submit_loop faults now ?xs d 0))) =
             map at_id (attempts d)"
    by (rule auto_submit_loop_attempt_ids) auto
  have "core_row (fst (auto_submit_loop faults now ?xs d 0)) i = Some (attempt_core t)"
    if t: "attempt_row d i = Some t" "at_status t \<noteq> InProgress" for i t
  proof -
    have "at_id x \<noteq> i" if "x \<in> set ?xs" for x
      using key_differs[OF assms _ _ t, of x] that by auto
    then have "core_row (fst (auto_submit_loop faults now ?xs d 0)) i = core_row d i"
      by (rule auto_submit_loop_other)
    with t(1) show ?thesis
      by (simp add: core_row_terminal)
  qed
  with ids assms show ?thesis
    by (simp add: terminal_kept_def auto_submit_expired_exams_def)
qed

subsection \<open>Sequences\<close>

lemma terminal_kept_operation:
  assumes "distinct (map at_id (attempts d))"
  shows "terminal_kept d (apply_operation tp now op d)"
  using assms
  by (cases op)
     (simp_all add: terminal_kept_start terminal_kept_save terminal_kept_submit
        terminal_kept_evaluate terminal_kept_finalize terminal_kept_task terminal_kept_handle)

lemma terminal_kept_run:
  assumes "distinct (map at_id (attempts d))"
  shows "terminal_kept d (run tp evs d)"
  using assms
proof (induction evs arbitrary: d)
  case Nil
  then show ?case by (simp add: terminal_kept_same)
next
  case (Cons ev evs)
  let ?d1 = "apply_operation tp (fst ev) (snd ev) d"
  have 1: "terminal_kept d ?d1"
    using Cons.prems by (rule terminal_kept_operation)
  then have "distinct (map at_id (attempts ?d1))"
    by (simp add: terminal_kept_def)
  then have "terminal_kept ?d1 (run tp evs ?d1)"
    by (rule Cons.IH)
  with 1 show ?case
    by (simp add: terminal_kept_trans)
qed


text \<open>
  Claim C9. Let the keys of the attempts be unique. Under every sequence of the
  operations start, save, submit, grading of an answer, recomputation of results and
  the two sweeps, each at any clock reading, with any request body and with any
  failures in the sweeps, an attempt whose status is \<open>submitted\<close> or \<open>auto_submitted\<close>
  keeps that status, and its submit time: no operation changes the status of an
  attempt that is not in progress.
\<close>

theorem terminal_status_never_reverts:
  assumes "distinct (map at_id (attempts d))"
    and "attempt_status_of d i = Some s" and "s \<noteq> InProgress"
  shows "attempt_status_of (run to_python evs d) i = Some s \<and>
         submit_time_of (run to_python evs d) i = submit_time_of d i \<and>
         attempt_status_of (apply_operation to_python now op d) i = Some s"
proof -
  obtain t where t: "attempt_row d i = Some t" "at_status t = s"
    using assms(2) by (auto simp: attempt_status_of_def)
  have nt: "at_status t \<noteq> InProgress"
    using t(2) assms(3) by simp
  have c0: "core_row d i = Some (attempt_core t)"
    using t(1) by (rule core_row_terminal)
  have "terminal_kept d (run to_python evs d)"
    using assms(1) by (rule terminal_kept_run)
  then have c1: "core_row (run to_python evs d) i = Some (attempt_core t)"
    using t(1) nt by (simp add: terminal_kept_def)
  have "terminal_kept d (apply_operation to_python now op d)"
    using assms(1) by (rule terminal_kept_operation)
  then have c2: "core_row (apply_operation to_python now op d) i = Some (attempt_core t)"
    using t(1) nt by (simp add: terminal_kept_def)
  from core_row_status[OF c0] core_row_status[OF c1] core_row_status[OF c2] t(2)
  show ?thesis
    by simp
qed

text \<open>
  In \<open>ex_db_mixed\<close> the submitted attempt 7 is still submitted after the operations of
  \<open>ex_events\<close>, while attempt 8, in progress before, is auto-submitted by the sweep.
\<close>

theorem terminal_status_never_reverts_witness:
  "distinct (map at_id (attempts ex_db_mixed)) \<and>
   attempt_status_of ex_db_mixed 7 = Some Submitted \<and>
   attempt_status_of (run ex_to_python ex_events ex_db_mixed) 7 = Some Submitted \<and>
   submit_time_of (run ex_to_python ex_events ex_db_mixed) 7 = Some (Some 100000000) \<and>
   attempt_status_of ex_db_mixed 8 = Some InProgress \<and>
   attempt_status_of (run ex_to_python ex_events ex_db_mixed) 8 = Some AutoSubmitted"
proof -
  have h1: "distinct (map at_id (attempts ex_db_mixed))"
    by code_simp
  have h2: "attempt_status_of ex_db_mixed 7 = Some Submitted"
    by code_simp
  have h3: "Submitted \<noteq> InProgress"
    by simp
  have h4: "submit_time_of ex_db_mixed 7 = Some (Some 100000000)"
    by code_simp
  have h5: "attempt_status_of ex_db_mixed 8 = Some InProgress"
    by code_simp
  have h6: "attempt_status_of (run ex_to_python ex_events ex_db_mixed) 8 = Some AutoSubmitted"
    by code_simp
  from terminal_status_never_reverts[OF h1 h2 h3, of ex_to_python ex_events] h1 h2 h4 h5 h6
  show ?thesis
    by simp
qed

end
